theory Spec2Isabelle
  imports Complex_Main
begin

section \<open>Numbers\<close>

text \<open>
  The analytics engine computes on JavaScript numbers, which are IEEE 754 doubles. They are
  read in two ways.

  For what the analyses are made of (which points a series keeps, which windows a mean is
  taken of, what a call changes in the detector), a data point's value and timestamp are
  finite numbers (the engine's contract leaves rejecting non-finite input to its callers),
  and they are modelled as \<^typ>\<open>real\<close>: arithmetic is exact, there is no rounding and no
  overflow. Counts (array lengths, \<open>windowSize\<close>, \<open>minSamples\<close>: "number of data points" in
  \<open>types.ts\<close>) are integers; they are not validated, so they may be zero or negative.
  A division whose divisor the source has just tested against zero is written with the
  division of \<^typ>\<open>real\<close>, under the same test. The one division the source does not guard
  (\<open>getSeverity\<close>) is written with \<open>js_div\<close>, which returns what JavaScript returns for a
  zero divisor.

  Whether a result can be NaN or Infinity is not a question exact arithmetic can answer:
  the sum of finite doubles can overflow. For that, the statistics and \<open>detectRegressions\<close>
  are embedded a second time on doubles (the definitions whose names end in \<open>64\<close>).
\<close>

datatype jsnum = Fin real | PosInfinity | NegInfinity | NaN

definition js_div :: "real \<Rightarrow> real \<Rightarrow> jsnum" where
  "js_div x y =
     (if y \<noteq> 0 then Fin (x / y)
      else if x > 0 then PosInfinity
      else if x < 0 then NegInfinity
      else NaN)"

text \<open>\<open>a > c\<close> for a quotient \<open>a\<close> and a finite constant \<open>c\<close>; every comparison with NaN is false.\<close>

fun js_gt :: "jsnum \<Rightarrow> real \<Rightarrow> bool" where
  "js_gt (Fin x) c = (x > c)"
| "js_gt PosInfinity c = True"
| "js_gt NegInfinity c = False"
| "js_gt NaN c = False"

fun js_le :: "jsnum \<Rightarrow> real \<Rightarrow> bool" where
  "js_le (Fin x) c = (x \<le> c)"
| "js_le PosInfinity c = False"
| "js_le NegInfinity c = True"
| "js_le NaN c = False"

subsection \<open>Doubles\<close>

text \<open>
  A double is a finite real of the form \<open>m * 2 ^ q\<close> with an integer \<open>m\<close> of at most 53 bits
  and \<open>-1074 \<le> q \<le> 971\<close>, or Infinity, -Infinity or NaN; the sign of zero is not
  represented. \<open>round64 x\<close> is the double nearest to the real \<open>x\<close>, ties to the even
  significand: \<open>q\<close> is the exponent of the last bit of the significand at the magnitude of
  \<open>x\<close> (at least -1074, where the subnormal numbers lie), and a result of magnitude \<open>2 ^ 1024\<close>
  or more overflows to the infinity of the sign of \<open>x\<close>.
\<close>

definition round_even :: "real \<Rightarrow> int" where
  "round_even r =
     (let f = \<lfloor>r\<rfloor>
      in if r - of_int f < 1 / 2 then f
         else if r - of_int f > 1 / 2 then f + 1
         else if even f then f else f + 1)"

definition round64 :: "real \<Rightarrow> jsnum" where
  "round64 x =
     (if x = 0 then Fin 0
      else
        (let q = max (\<lfloor>log 2 \<bar>x\<bar>\<rfloor> - 52) (- 1074);
             y = of_int (round_even (x / 2 powi q)) * 2 powi q
         in if \<bar>y\<bar> \<ge> 2 ^ 1024 then (if x > 0 then PosInfinity else NegInfinity)
            else Fin y))"

text \<open>
  The operations of the source on doubles: \<open>+\<close>, \<open>-\<close>, \<open>*\<close>, \<open>/\<close>, \<open>Math.sqrt\<close>, \<open>** 2\<close> (taken to
  be the correctly rounded square), \<open>Math.abs\<close>, \<open><\<close>, \<open>>\<close>, \<open>===\<close> and \<open>>=\<close>. On finite operands
  the exact result is rounded; on the others the result is that of IEEE 754. Every
  comparison with NaN is false.
\<close>

fun neg64 :: "jsnum \<Rightarrow> jsnum" where
  "neg64 (Fin x) = Fin (- x)"
| "neg64 PosInfinity = NegInfinity"
| "neg64 NegInfinity = PosInfinity"
| "neg64 NaN = NaN"

fun add64 :: "jsnum \<Rightarrow> jsnum \<Rightarrow> jsnum" where
  "add64 (Fin x) (Fin y) = round64 (x + y)"
| "add64 NaN b = NaN"
| "add64 a NaN = NaN"
| "add64 PosInfinity NegInfinity = NaN"
| "add64 NegInfinity PosInfinity = NaN"
| "add64 PosInfinity b = PosInfinity"
| "add64 a PosInfinity = PosInfinity"
| "add64 NegInfinity b = NegInfinity"
| "add64 a NegInfinity = NegInfinity"

definition sub64 :: "jsnum \<Rightarrow> jsnum \<Rightarrow> jsnum" where
  "sub64 a b = add64 a (neg64 b)"

fun sign64 :: "jsnum \<Rightarrow> real" where
  "sign64 (Fin x) = sgn x"
| "sign64 PosInfinity = 1"
| "sign64 NegInfinity = - 1"
| "sign64 NaN = 0"

definition inf_of_sign :: "real \<Rightarrow> jsnum" where
  "inf_of_sign s = (if s > 0 then PosInfinity else if s < 0 then NegInfinity else NaN)"

fun mul64 :: "jsnum \<Rightarrow> jsnum \<Rightarrow> jsnum" where
  "mul64 (Fin x) (Fin y) = round64 (x * y)"
| "mul64 NaN b = NaN"
| "mul64 a NaN = NaN"
| "mul64 a b = inf_of_sign (sign64 a * sign64 b)"

fun div64 :: "jsnum \<Rightarrow> jsnum \<Rightarrow> jsnum" where
  "div64 (Fin x) (Fin y) = (if y = 0 then inf_of_sign (sgn x) else round64 (x / y))"
| "div64 NaN b = NaN"
| "div64 a NaN = NaN"
| "div64 (Fin x) b = Fin 0"
| "div64 a (Fin y) = inf_of_sign (sign64 a * (if y < 0 then - 1 else 1))"
| "div64 a b = NaN"

fun sqrt64 :: "jsnum \<Rightarrow> jsnum" where
  "sqrt64 (Fin x) = (if x < 0 then NaN else round64 (sqrt x))"
| "sqrt64 PosInfinity = PosInfinity"
| "sqrt64 NegInfinity = NaN"
| "sqrt64 NaN = NaN"

fun sq64 :: "jsnum \<Rightarrow> jsnum" where
  "sq64 (Fin x) = round64 (x * x)"
| "sq64 NaN = NaN"
| "sq64 a = PosInfinity"

fun abs64 :: "jsnum \<Rightarrow> jsnum" where
  "abs64 (Fin x) = Fin \<bar>x\<bar>"
| "abs64 NaN = NaN"
| "abs64 a = PosInfinity"

fun lt64 :: "jsnum \<Rightarrow> jsnum \<Rightarrow> bool" where
  "lt64 (Fin x) (Fin y) = (x < y)"
| "lt64 NaN b = False"
| "lt64 a NaN = False"
| "lt64 a NegInfinity = False"
| "lt64 PosInfinity b = False"
| "lt64 a PosInfinity = True"
| "lt64 NegInfinity b = True"

definition gt64 :: "jsnum \<Rightarrow> jsnum \<Rightarrow> bool" where
  "gt64 a b = lt64 b a"

definition eq64 :: "jsnum \<Rightarrow> jsnum \<Rightarrow> bool" where
  "eq64 a b = (a \<noteq> NaN \<and> a = b)"

definition ge64 :: "jsnum \<Rightarrow> jsnum \<Rightarrow> bool" where
  "ge64 a b = (gt64 a b \<or> eq64 a b)"

section \<open>Arrays\<close>

text \<open>
  \<open>Array.prototype.slice(start, end)\<close> on integer arguments: a negative index counts from
  the end, both indices are clamped to the array, and the result is empty when the start
  is not before the end. \<open>slice(-0)\<close> is \<open>slice(0)\<close>, the whole array.
\<close>

definition array_slice :: "'a list \<Rightarrow> int \<Rightarrow> int \<Rightarrow> 'a list" where
  "array_slice xs start fin =
     (let len = int (length xs);
          k = (if start < 0 then max (len + start) 0 else min start len);
          final = (if fin < 0 then max (len + fin) 0 else min fin len)
      in take (nat (final - k)) (drop (nat k) xs))"

text \<open>\<open>slice(start)\<close>, the end left out.\<close>

definition array_slice_from :: "'a list \<Rightarrow> int \<Rightarrow> 'a list" where
  "array_slice_from xs start = array_slice xs start (int (length xs))"

section \<open>Statistics (statistics.ts)\<close>

definition mean :: "real list \<Rightarrow> real" where
  "mean values =
     (if length values = 0 then 0
      else foldl (\<lambda>sum v. sum + v) 0 values / real (length values))"

definition variance :: "real list \<Rightarrow> real" where
  "variance values =
     (if length values < 2 then 0
      else (let avg = mean values
            in foldl (\<lambda>sum v. sum + (v - avg) ^ 2) 0 values / real (length values - 1)))"

definition stdDev :: "real list \<Rightarrow> real" where
  "stdDev values = sqrt (variance values)"

definition zScore :: "real \<Rightarrow> real \<Rightarrow> real \<Rightarrow> real" where
  "zScore v populationMean populationStdDev =
     (if populationStdDev = 0 then 0
      else (v - populationMean) / populationStdDev)"

text \<open>The loop of \<open>ewma\<close> from index 1: \<open>prev\<close> is \<open>result[i - 1]\<close>.\<close>

fun ewma_loop :: "real \<Rightarrow> real \<Rightarrow> real list \<Rightarrow> real list" where
  "ewma_loop alpha prev [] = []"
| "ewma_loop alpha prev (v # vs) =
     (let r = alpha * v + (1 - alpha) * prev in r # ewma_loop alpha r vs)"

definition ewma :: "real list \<Rightarrow> real \<Rightarrow> real list" where
  "ewma values alpha =
     (case values of [] \<Rightarrow> [] | v0 # vs \<Rightarrow> v0 # ewma_loop alpha v0 vs)"

datatype trend_direction = Improving | Degrading | Stable

record Trend =
  slope :: real
  direction :: trend_direction

text \<open>The loop of \<open>linearTrend\<close>: the pair is (numerator, denominator).\<close>

definition trend_sums :: "real list \<Rightarrow> real \<Rightarrow> real \<Rightarrow> real \<times> real" where
  "trend_sums values xMean yMean =
     fold (\<lambda>i (numerator, denominator).
             (numerator + (real i - xMean) * (values ! i - yMean),
              denominator + (real i - xMean) ^ 2))
          [0 ..< length values] (0, 0)"

definition linearTrend :: "real list \<Rightarrow> Trend" where
  "linearTrend values =
     (if length values < 2 then \<lparr>slope = 0, direction = Stable\<rparr>
      else
        (let n = length values;
             xMean = (real n - 1) / 2;
             yMean = mean values;
             (numerator, denominator) = trend_sums values xMean yMean;
             slope = (if denominator = 0 then 0 else numerator / denominator);
             normalizedSlope = (if yMean = 0 then 0 else slope / yMean);
             direction =
               (if \<bar>normalizedSlope\<bar> < 0.005 then Stable
                else if normalizedSlope > 0 then Degrading else Improving)
         in \<lparr>slope = slope, direction = direction\<rparr>))"

section \<open>Thresholds (thresholds.ts)\<close>

record MetricThresholds =
  good :: real
  needsImprovement :: real

definition WEB_VITALS_THRESHOLDS :: "string \<rightharpoonup> MetricThresholds" where
  "WEB_VITALS_THRESHOLDS = map_of
     [(''LCP'', \<lparr>good = 2500, needsImprovement = 4000\<rparr>),
      (''FID'', \<lparr>good = 100, needsImprovement = 300\<rparr>),
      (''CLS'', \<lparr>good = 0.1, needsImprovement = 0.25\<rparr>),
      (''INP'', \<lparr>good = 200, needsImprovement = 500\<rparr>),
      (''TTFB'', \<lparr>good = 800, needsImprovement = 1800\<rparr>),
      (''FCP'', \<lparr>good = 1800, needsImprovement = 3000\<rparr>),
      (''long-task'', \<lparr>good = 50, needsImprovement = 100\<rparr>),
      (''resource-load'', \<lparr>good = 500, needsImprovement = 1500\<rparr>)]"

datatype severity_level = Critical | Warning | Info

text \<open>
  \<open>customThresholds?.[name] || WEB_VITALS_THRESHOLDS[name]\<close>: an entry of the caller's map
  wins; the table is read when the map is absent or has no entry for the name. The two
  records are maps from the names they list to thresholds. (For a name that a JavaScript
  object inherits, such as \<open>constructor\<close>, the lookup finds a value with no
  \<open>needsImprovement\<close>; the ratio is then NaN and \<open>getSeverity\<close> returns \<open>info\<close>, as it does
  here for a name with no entry.)
\<close>

definition lookupThresholds ::
  "string \<Rightarrow> (string \<rightharpoonup> MetricThresholds) option \<Rightarrow> MetricThresholds option" where
  "lookupThresholds name customThresholds =
     (case (case customThresholds of None \<Rightarrow> None | Some m \<Rightarrow> m name) of
        Some t \<Rightarrow> Some t
      | None \<Rightarrow> WEB_VITALS_THRESHOLDS name)"

definition getSeverity ::
  "string \<Rightarrow> real \<Rightarrow> (string \<rightharpoonup> MetricThresholds) option \<Rightarrow> severity_level" where
  "getSeverity name v customThresholds =
     (case lookupThresholds name customThresholds of
        None \<Rightarrow> Info
      | Some thresholds \<Rightarrow>
          (let ratio = js_div v (needsImprovement thresholds)
           in if js_gt ratio 1.5 then Critical
              else if js_gt ratio 1.0 then Warning
              else Info))"

datatype rating_level = Good | NeedsImprovement | Poor

section \<open>Data model (types.ts)\<close>

record MetricDataPoint =
  name :: string
  val :: real
  timestamp :: real
  url :: "string option"
  pathname :: "string option"
  rating :: "rating_level option"
  sessionId :: "string option"

record RegressionAlert =
  r_metric :: string
  r_url :: "string option"
  previousValue :: real
  currentValue :: real
  absoluteChange :: real
  percentageChange :: real
  r_zScore :: real
  severity :: severity_level
  detectedAt :: real
  r_windowSize :: int
  message :: string

datatype anomaly_direction = Up | Down | NoDirection

record AnomalyResult =
  a_metric :: string
  a_value :: real
  a_timestamp :: real
  a_zScore :: real
  isAnomaly :: bool
  a_direction :: anomaly_direction

record AnalyticsConfig =
  windowSize :: int
  zScoreThreshold :: real
  minSamples :: int
  regressionPercentThreshold :: real
  customThresholds :: "(string \<rightharpoonup> MetricThresholds) option"

record TrendSummary =
  t_direction :: trend_direction
  t_slope :: real
  ewmaValues :: "real list"
  recentMean :: real
  baselineMean :: real

section \<open>The detector (detector.ts)\<close>

text \<open>
  The detector's \<open>series\<close> is a JavaScript \<open>Map\<close> from series key to an array of data points.
  An array is an object: \<open>push\<close> and \<open>sort\<close> change it in place, while \<open>slice\<close> and the spread
  \<open>[...points]\<close> make a new one. So the map holds the address of each array and the arrays
  live in a store, a list indexed by address; a new array is placed at the end of the
  store. The map is an association list in insertion order, the order \<open>forEach\<close> visits.
  Arrays of numbers (\<open>values\<close> and its slices) are never changed after they are made and
  are plain lists.
\<close>

type_synonym addr = nat
type_synonym array_store = "MetricDataPoint list list"

record RegressionDetector =
  config :: AnalyticsConfig
  series :: "(string \<times> addr) list"
  arrays :: array_store

definition new_array :: "MetricDataPoint list \<Rightarrow> array_store \<Rightarrow> addr \<times> array_store" where
  "new_array xs h = (length h, h @ [xs])"

text \<open>\<open>Map.prototype.set\<close>: an existing key keeps its place, a new key goes last.\<close>

fun map_set :: "(string \<times> addr) list \<Rightarrow> string \<Rightarrow> addr \<Rightarrow> (string \<times> addr) list" where
  "map_set [] k a = [(k, a)]"
| "map_set ((k', a') # m) k a = (if k' = k then (k, a) # m else (k', a') # map_set m k a)"

definition map_has :: "(string \<times> addr) list \<Rightarrow> string \<Rightarrow> bool" where
  "map_has m k = (map_of m k \<noteq> None)"

definition map_delete :: "(string \<times> addr) list \<Rightarrow> string \<Rightarrow> (string \<times> addr) list" where
  "map_delete m k = filter (\<lambda>(k', a). k' \<noteq> k) m"

definition DEFAULT_CONFIG :: AnalyticsConfig where
  "DEFAULT_CONFIG =
     \<lparr>windowSize = 30, zScoreThreshold = 2.5, minSamples = 10,
      regressionPercentThreshold = 0.2, customThresholds = None\<rparr>"

record ConfigOverrides =
  o_windowSize :: "int option"
  o_zScoreThreshold :: "real option"
  o_minSamples :: "int option"
  o_regressionPercentThreshold :: "real option"
  o_customThresholds :: "(string \<rightharpoonup> MetricThresholds) option"

text \<open>The constructor: \<open>{ ...DEFAULT_CONFIG, ...config }\<close>, and an empty map.\<close>

definition newDetector :: "ConfigOverrides \<Rightarrow> RegressionDetector" where
  "newDetector c =
     \<lparr>config =
        \<lparr>windowSize = (case o_windowSize c of Some w \<Rightarrow> w | None \<Rightarrow> windowSize DEFAULT_CONFIG),
         zScoreThreshold =
           (case o_zScoreThreshold c of Some z \<Rightarrow> z | None \<Rightarrow> zScoreThreshold DEFAULT_CONFIG),
         minSamples = (case o_minSamples c of Some n \<Rightarrow> n | None \<Rightarrow> minSamples DEFAULT_CONFIG),
         regressionPercentThreshold =
           (case o_regressionPercentThreshold c of Some r \<Rightarrow> r
            | None \<Rightarrow> regressionPercentThreshold DEFAULT_CONFIG),
         customThresholds =
           (case o_customThresholds c of Some m \<Rightarrow> Some m
            | None \<Rightarrow> customThresholds DEFAULT_CONFIG)\<rparr>,
      series = [], arrays = []\<rparr>"

text \<open>\<open>url ? `${name}|${url}` : name\<close>: an absent and an empty url are both falsy.\<close>

definition key :: "string \<Rightarrow> string option \<Rightarrow> string" where
  "key nm u =
     (case u of None \<Rightarrow> nm
      | Some s \<Rightarrow> if s = [] then nm else nm @ ''|'' @ s)"

definition addDataPoint :: "MetricDataPoint \<Rightarrow> RegressionDetector \<Rightarrow> RegressionDetector" where
  "addDataPoint point d =
     (let k = key (name point) (url point);
          d1 = (if \<not> map_has (series d) k
                then (let (a, h) = new_array [] (arrays d)
                      in d\<lparr>series := map_set (series d) k a, arrays := h\<rparr>)
                else d);
          pa = the (map_of (series d1) k);
          d2 = d1\<lparr>arrays := (arrays d1)[pa := arrays d1 ! pa @ [point] ]\<rparr>;
          maxSize = windowSize (config d) * 10;
          arr = arrays d2 ! pa
      in if int (length arr) > maxSize
         then (let (b, h) = new_array (array_slice_from arr (- maxSize)) (arrays d2)
               in d2\<lparr>series := map_set (series d2) k b, arrays := h\<rparr>)
         else d2)"

fun addDataPoints :: "MetricDataPoint list \<Rightarrow> RegressionDetector \<Rightarrow> RegressionDetector" where
  "addDataPoints [] d = d"
| "addDataPoints (point # points) d = addDataPoints points (addDataPoint point d)"

definition clear :: "string option \<Rightarrow> string option \<Rightarrow> RegressionDetector \<Rightarrow> RegressionDetector" where
  "clear metricName u d =
     (case metricName of
        None \<Rightarrow> d\<lparr>series := []\<rparr>
      | Some nm \<Rightarrow>
          if nm = [] then d\<lparr>series := []\<rparr>
          else d\<lparr>series := map_delete (series d) (key nm u)\<rparr>)"

definition getSeriesCount :: "RegressionDetector \<Rightarrow> nat" where
  "getSeriesCount d = length (series d)"

definition getDataPointCount :: "string \<Rightarrow> string option \<Rightarrow> RegressionDetector \<Rightarrow> nat" where
  "getDataPointCount metricName u d =
     (case map_of (series d) (key metricName u) of
        None \<Rightarrow> 0
      | Some pa \<Rightarrow> length (arrays d ! pa))"

text \<open>\<open>[...points].sort((a, b) => a.timestamp - b.timestamp)\<close>: the spread makes a new array,
  \<open>sort\<close> orders that array in place (ascending and stable) and returns it.\<close>

definition sorted_copy :: "addr \<Rightarrow> array_store \<Rightarrow> addr \<times> array_store" where
  "sorted_copy pa h =
     (let (sa, h1) = new_array (h ! pa) h
      in (sa, h1[sa := sort_key timestamp (h1 ! sa)]))"

subsection \<open>detectAnomalies\<close>

datatype error = TypeError

text \<open>
  The callback of \<open>forEach\<close> from the sorted array on. \<open>Inr None\<close> is a \<open>return\<close> with
  nothing pushed and \<open>Inr (Some r)\<close> is \<open>results.push(r)\<close>. \<open>sorted[sorted.length - 1]\<close> is
  \<open>undefined\<close> for an empty array, and reading \<open>latest.value\<close> then throws a TypeError.
\<close>

definition anomalyResult ::
  "AnalyticsConfig \<Rightarrow> string \<Rightarrow> MetricDataPoint list \<Rightarrow> error + AnomalyResult option" where
  "anomalyResult cfg seriesKey sortedPoints =
     (let values = map val sortedPoints;
          latest = (if sortedPoints = [] then None
                    else Some (sortedPoints ! (length sortedPoints - 1)));
          baselineValues = array_slice values (- windowSize cfg - 1) (- 1)
      in if int (length baselineValues) < minSamples cfg then Inr None
         else
           (let baselineMean = mean baselineValues;
                baselineStdDev = stdDev baselineValues
            in case latest of
                 None \<Rightarrow> Inl TypeError
               | Some l \<Rightarrow>
                   (let z = zScore (val l) baselineMean baselineStdDev
                    in Inr (Some
                         \<lparr>a_metric = seriesKey,
                          a_value = val l,
                          a_timestamp = timestamp l,
                          a_zScore = z,
                          isAnomaly = (\<bar>z\<bar> > zScoreThreshold cfg),
                          a_direction =
                            (if z > zScoreThreshold cfg then Up
                             else if z < - zScoreThreshold cfg then Down
                             else NoDirection)\<rparr>))))"

text \<open>The whole callback for one entry of the map, with the results pushed so far. An
  exception ends the call; the copy made before it stays in the store.\<close>

definition anomalyCallback ::
  "AnalyticsConfig \<Rightarrow> string \<Rightarrow> addr \<Rightarrow> AnomalyResult list \<Rightarrow> array_store
     \<Rightarrow> (error + AnomalyResult list) \<times> array_store" where
  "anomalyCallback cfg seriesKey pa results h =
     (let points = h ! pa
      in if int (length points) < minSamples cfg then (Inr results, h)
         else
           (let (sa, h') = sorted_copy pa h
            in case anomalyResult cfg seriesKey (h' ! sa) of
                 Inl e \<Rightarrow> (Inl e, h')
               | Inr None \<Rightarrow> (Inr results, h')
               | Inr (Some r) \<Rightarrow> (Inr (results @ [r]), h')))"

fun anomalies_forEach ::
  "AnalyticsConfig \<Rightarrow> (string \<times> addr) list \<Rightarrow> AnomalyResult list \<Rightarrow> array_store
     \<Rightarrow> (error + AnomalyResult list) \<times> array_store" where
  "anomalies_forEach cfg [] results h = (Inr results, h)"
| "anomalies_forEach cfg ((seriesKey, pa) # rest) results h =
     (case anomalyCallback cfg seriesKey pa results h of
        (Inl e, h') \<Rightarrow> (Inl e, h')
      | (Inr results', h') \<Rightarrow> anomalies_forEach cfg rest results' h')"

definition detectAnomalies ::
  "RegressionDetector \<Rightarrow> (error + AnomalyResult list) \<times> RegressionDetector" where
  "detectAnomalies d =
     (let (r, h) = anomalies_forEach (config d) (series d) [] (arrays d)
      in (r, d\<lparr>arrays := h\<rparr>))"

subsection \<open>detectRegressions\<close>

text \<open>\<open>String.prototype.split\<close> on a one-character separator.\<close>

fun split :: "char \<Rightarrow> string \<Rightarrow> string list" where
  "split c [] = [ [] ]"
| "split c (x # xs) =
     (if x = c then [] # split c xs
      else (case split c xs of [] \<Rightarrow> [ [x] ] | w # ws \<Rightarrow> (x # w) # ws))"

text \<open>\<open>parts[i]\<close>, \<open>undefined\<close> (here \<open>None\<close>) out of range.\<close>

definition index_opt :: "'a list \<Rightarrow> nat \<Rightarrow> 'a option" where
  "index_opt xs i = (if i < length xs then Some (xs ! i) else None)"

text \<open>
  The host supplies two things to \<open>detectRegressions\<close>: the clock reading \<open>Date.now()\<close> and
  the number formatting \<open>Number.prototype.toFixed(1)\<close>. Both are parameters, \<open>now\<close> and
  \<open>toFixed1\<close>. The arrow of the message is written as its three UTF-8 bytes.
\<close>

definition alertMessage ::
  "(real \<Rightarrow> string) \<Rightarrow> string \<Rightarrow> string option \<Rightarrow> real \<Rightarrow> real \<Rightarrow> real \<Rightarrow> string" where
  "alertMessage toFixed1 metricName u pct prevMean currMean =
     metricName @ '' degraded by '' @ toFixed1 (pct * 100) @ ''% ('' @ toFixed1 prevMean
       @ [CHR '' '', CHR 0xE2, CHR 0x86, CHR 0x92, CHR '' ''] @ toFixed1 currMean @ '')''
       @ (case u of None \<Rightarrow> [] | Some s \<Rightarrow> if s = [] then [] else '' on '' @ s)"

text \<open>\<open>Math.min(this.config.windowSize, Math.floor(values.length / 2))\<close>, and the two windows
  of \<open>detectRegressions\<close> cut with it.\<close>

definition effectiveWindow :: "AnalyticsConfig \<Rightarrow> 'a list \<Rightarrow> int" where
  "effectiveWindow cfg values = min (windowSize cfg) (int (length values) div 2)"

definition currentWindow :: "AnalyticsConfig \<Rightarrow> 'a list \<Rightarrow> 'a list" where
  "currentWindow cfg values = array_slice_from values (- effectiveWindow cfg values)"

definition previousWindow :: "AnalyticsConfig \<Rightarrow> 'a list \<Rightarrow> 'a list" where
  "previousWindow cfg values =
     array_slice values (- effectiveWindow cfg values * 2) (- effectiveWindow cfg values)"

text \<open>The callback of \<open>forEach\<close> from the sorted array on: \<open>None\<close> is a \<open>return\<close> with nothing
  pushed, \<open>Some\<close> is the alert pushed.\<close>

definition regressionAlert ::
  "AnalyticsConfig \<Rightarrow> (real \<Rightarrow> string) \<Rightarrow> real \<Rightarrow> string \<Rightarrow> MetricDataPoint list
     \<Rightarrow> RegressionAlert option" where
  "regressionAlert cfg toFixed1 now seriesKey sortedPoints =
     (let values = map val sortedPoints;
          effWindow = effectiveWindow cfg values;
          currWindow = currentWindow cfg values;
          prevWindow = previousWindow cfg values
      in if int (length prevWindow) < minSamples cfg then None
         else
           (let prevMean = mean prevWindow;
                currMean = mean currWindow
            in if prevMean = 0 then None
               else
                 (let absChange = currMean - prevMean;
                      pctChange = absChange / prevMean
                  in if pctChange < regressionPercentThreshold cfg then None
                     else
                       (let prevStdDev = stdDev prevWindow;
                            z = zScore currMean prevMean prevStdDev
                        in if \<bar>z\<bar> < 1.5 then None
                           else
                             (let parts = split CHR ''|'' seriesKey;
                                  metricName = (case parts of [] \<Rightarrow> [] | m # _ \<Rightarrow> m);
                                  u = (if CHR ''|'' \<in> set seriesKey then index_opt parts 1
                                       else None);
                                  sev = (if pctChange > 0.5 then Critical
                                         else if pctChange > 0.3 then Warning
                                         else getSeverity metricName currMean None)
                              in Some
                                   \<lparr>r_metric = metricName,
                                    r_url = u,
                                    previousValue = prevMean,
                                    currentValue = currMean,
                                    absoluteChange = absChange,
                                    percentageChange = pctChange,
                                    r_zScore = z,
                                    severity = sev,
                                    detectedAt = now,
                                    r_windowSize = effWindow,
                                    message = alertMessage toFixed1 metricName u pctChange
                                                prevMean currMean\<rparr>)))))"

definition regressionCallback ::
  "AnalyticsConfig \<Rightarrow> (real \<Rightarrow> string) \<Rightarrow> real \<Rightarrow> string \<Rightarrow> addr \<Rightarrow> RegressionAlert list
     \<Rightarrow> array_store \<Rightarrow> RegressionAlert list \<times> array_store" where
  "regressionCallback cfg toFixed1 now seriesKey pa alerts h =
     (let points = h ! pa
      in if int (length points) < minSamples cfg * 2 then (alerts, h)
         else
           (let (sa, h') = sorted_copy pa h
            in case regressionAlert cfg toFixed1 now seriesKey (h' ! sa) of
                 None \<Rightarrow> (alerts, h')
               | Some alert \<Rightarrow> (alerts @ [alert], h')))"

fun regressions_forEach ::
  "AnalyticsConfig \<Rightarrow> (real \<Rightarrow> string) \<Rightarrow> real \<Rightarrow> (string \<times> addr) list
     \<Rightarrow> RegressionAlert list \<Rightarrow> array_store \<Rightarrow> RegressionAlert list \<times> array_store" where
  "regressions_forEach cfg toFixed1 now [] alerts h = (alerts, h)"
| "regressions_forEach cfg toFixed1 now ((seriesKey, pa) # rest) alerts h =
     (let (alerts', h') = regressionCallback cfg toFixed1 now seriesKey pa alerts h
      in regressions_forEach cfg toFixed1 now rest alerts' h')"

definition detectRegressions ::
  "(real \<Rightarrow> string) \<Rightarrow> real \<Rightarrow> RegressionDetector
     \<Rightarrow> RegressionAlert list \<times> RegressionDetector" where
  "detectRegressions toFixed1 now d =
     (let (alerts, h) = regressions_forEach (config d) toFixed1 now (series d) [] (arrays d)
      in (alerts, d\<lparr>arrays := h\<rparr>))"

subsection \<open>analyzeTrend\<close>

text \<open>The summary built from the sorted array.\<close>

definition trendSummary :: "AnalyticsConfig \<Rightarrow> MetricDataPoint list \<Rightarrow> TrendSummary" where
  "trendSummary cfg sortedPoints =
     (let values = map val sortedPoints;
          trend = linearTrend values;
          ewmaVals = ewma values 0.3;
          effWindow = effectiveWindow cfg values
      in \<lparr>t_direction = direction trend,
          t_slope = slope trend,
          ewmaValues = ewmaVals,
          recentMean = mean (array_slice_from values (- effWindow)),
          baselineMean = mean (array_slice values 0 effWindow)\<rparr>)"

definition analyzeTrend ::
  "string \<Rightarrow> string option \<Rightarrow> RegressionDetector
     \<Rightarrow> TrendSummary option \<times> RegressionDetector" where
  "analyzeTrend metricName u d =
     (let k = key metricName u
      in case map_of (series d) k of
           None \<Rightarrow> (None, d)
         | Some pa \<Rightarrow>
             (let points = arrays d ! pa
              in if int (length points) < minSamples (config d) then (None, d)
                 else
                   (let (sa, h') = sorted_copy pa (arrays d)
                    in (Some (trendSummary (config d) (h' ! sa)), d\<lparr>arrays := h'\<rparr>))))"

section \<open>Detector states\<close>

text \<open>
  The calls a client can make on a detector. A state of the detector is what a sequence of
  calls leaves of a newly constructed detector.
\<close>

datatype api_call =
    AddDataPoint MetricDataPoint
  | AddDataPoints "MetricDataPoint list"
  | Clear "string option" "string option"
  | DetectAnomalies
  | DetectRegressions real
  | AnalyzeTrend string "string option"

fun call :: "(real \<Rightarrow> string) \<Rightarrow> api_call \<Rightarrow> RegressionDetector \<Rightarrow> RegressionDetector" where
  "call toFixed1 (AddDataPoint p) d = addDataPoint p d"
| "call toFixed1 (AddDataPoints ps) d = addDataPoints ps d"
| "call toFixed1 (Clear nm u) d = clear nm u d"
| "call toFixed1 DetectAnomalies d = snd (detectAnomalies d)"
| "call toFixed1 (DetectRegressions now) d = snd (detectRegressions toFixed1 now d)"
| "call toFixed1 (AnalyzeTrend nm u) d = snd (analyzeTrend nm u d)"

definition calls ::
  "(real \<Rightarrow> string) \<Rightarrow> api_call list \<Rightarrow> RegressionDetector \<Rightarrow> RegressionDetector" where
  "calls toFixed1 cs d = fold (call toFixed1) cs d"

text \<open>The calls that analyse: neither \<open>addDataPoint(s)\<close> nor \<open>clear\<close>.\<close>

fun is_analysis :: "api_call \<Rightarrow> bool" where
  "is_analysis DetectAnomalies = True"
| "is_analysis (DetectRegressions now) = True"
| "is_analysis (AnalyzeTrend nm u) = True"
| "is_analysis c = False"

text \<open>The series store as a client can observe it: every key, in the order of the map,
  with the points of its array in stored order.\<close>

definition contents ::
  "array_store \<Rightarrow> (string \<times> addr) list \<Rightarrow> (string \<times> MetricDataPoint list) list" where
  "contents h m = map (\<lambda>(k, pa). (k, h ! pa)) m"

definition stored :: "RegressionDetector \<Rightarrow> (string \<times> MetricDataPoint list) list" where
  "stored d = contents (arrays d) (series d)"

text \<open>Every address of the map is an address of the store.\<close>

definition addrs_valid :: "(string \<times> addr) list \<Rightarrow> array_store \<Rightarrow> bool" where
  "addrs_valid m h = list_all (\<lambda>(k, pa). pa < length h) m"

text \<open>The invariant of the store: the addresses of the map are valid, and no two keys
  share an array.\<close>

definition store_inv :: "RegressionDetector \<Rightarrow> bool" where
  "store_inv d \<longleftrightarrow>
     addrs_valid (series d) (arrays d) \<and> distinct (map fst (series d)) \<and>
     distinct (map snd (series d))"

text \<open>
  What \<open>addDataPoint\<close> does to the points stored for each key: the cut to \<open>maxSize\<close> after
  the push, and the push to the series of key \<open>k\<close>, made if it is not there.
\<close>

definition bound_to :: "int \<Rightarrow> 'a list \<Rightarrow> 'a list" where
  "bound_to maxSize arr =
     (if int (length arr) > maxSize then array_slice_from arr (- maxSize) else arr)"

fun add_to ::
  "(string \<times> MetricDataPoint list) list \<Rightarrow> string \<Rightarrow> MetricDataPoint \<Rightarrow> int
     \<Rightarrow> (string \<times> MetricDataPoint list) list" where
  "add_to [] k p maxSize = [(k, bound_to maxSize [p])]"
| "add_to ((k', xs) # cs) k p maxSize =
     (if k' = k then (k, bound_to maxSize (xs @ [p])) # cs
      else (k', xs) # add_to cs k p maxSize)"

text \<open>
  What each analysis computes for one series, as a function of the points stored for it:
  the test on the number of stored points, then the callback on the sorted points.
\<close>

definition series_anomaly ::
  "AnalyticsConfig \<Rightarrow> string \<Rightarrow> MetricDataPoint list \<Rightarrow> error + AnomalyResult option" where
  "series_anomaly cfg k points =
     (if int (length points) < minSamples cfg then Inr None
      else anomalyResult cfg k (sort_key timestamp points))"

fun anomalies_of ::
  "AnalyticsConfig \<Rightarrow> (string \<times> MetricDataPoint list) list \<Rightarrow> AnomalyResult list
     \<Rightarrow> error + AnomalyResult list" where
  "anomalies_of cfg [] results = Inr results"
| "anomalies_of cfg ((k, points) # rest) results =
     (case series_anomaly cfg k points of
        Inl e \<Rightarrow> Inl e
      | Inr None \<Rightarrow> anomalies_of cfg rest results
      | Inr (Some r) \<Rightarrow> anomalies_of cfg rest (results @ [r]))"

definition series_regression ::
  "AnalyticsConfig \<Rightarrow> (real \<Rightarrow> string) \<Rightarrow> real \<Rightarrow> string \<Rightarrow> MetricDataPoint list
     \<Rightarrow> RegressionAlert option" where
  "series_regression cfg toFixed1 now k points =
     (if int (length points) < minSamples cfg * 2 then None
      else regressionAlert cfg toFixed1 now k (sort_key timestamp points))"

definition regressions_of ::
  "AnalyticsConfig \<Rightarrow> (real \<Rightarrow> string) \<Rightarrow> real \<Rightarrow> (string \<times> MetricDataPoint list) list
     \<Rightarrow> RegressionAlert list" where
  "regressions_of cfg toFixed1 now cs =
     List.map_filter (\<lambda>(k, points). series_regression cfg toFixed1 now k points) cs"

definition trend_of ::
  "AnalyticsConfig \<Rightarrow> (string \<times> MetricDataPoint list) list \<Rightarrow> string \<Rightarrow> TrendSummary option" where
  "trend_of cfg cs k =
     (case map_of cs k of
        None \<Rightarrow> None
      | Some points \<Rightarrow>
          if int (length points) < minSamples cfg then None
          else Some (trendSummary cfg (sort_key timestamp points)))"

section \<open>The regression analysis on doubles\<close>

text \<open>
  \<open>mean\<close>, \<open>variance\<close>, \<open>stdDev\<close>, \<open>zScore\<close>, \<open>getSeverity\<close> and \<open>detectRegressions\<close> once more,
  statement by statement as above, with the numbers of the source as doubles and every
  operation rounded. A real of the data model (a point's value, the configured threshold, an
  entry of the thresholds table) or of the source text (0.3) stands for the double nearest
  to it, which is the real itself when it is a double; the constants written \<open>Fin c\<close> (0, 0.5,
  1, 1.5, 100, the lengths) are doubles. The store, the map of the series and the sorting by
  timestamp are those of the detector above.
\<close>

definition mean64 :: "jsnum list \<Rightarrow> jsnum" where
  "mean64 values =
     (if length values = 0 then Fin 0
      else div64 (foldl (\<lambda>sum v. add64 sum v) (Fin 0) values) (Fin (real (length values))))"

definition variance64 :: "jsnum list \<Rightarrow> jsnum" where
  "variance64 values =
     (if length values < 2 then Fin 0
      else (let avg = mean64 values
            in div64 (foldl (\<lambda>sum v. add64 sum (sq64 (sub64 v avg))) (Fin 0) values)
                 (Fin (real (length values - 1)))))"

definition stdDev64 :: "jsnum list \<Rightarrow> jsnum" where
  "stdDev64 values = sqrt64 (variance64 values)"

definition zScore64 :: "jsnum \<Rightarrow> jsnum \<Rightarrow> jsnum \<Rightarrow> jsnum" where
  "zScore64 v populationMean populationStdDev =
     (if eq64 populationStdDev (Fin 0) then Fin 0
      else div64 (sub64 v populationMean) populationStdDev)"

definition getSeverity64 ::
  "string \<Rightarrow> jsnum \<Rightarrow> (string \<rightharpoonup> MetricThresholds) option \<Rightarrow> severity_level" where
  "getSeverity64 nm v custom =
     (case lookupThresholds nm custom of
        None \<Rightarrow> Info
      | Some thresholds \<Rightarrow>
          (let ratio = div64 v (round64 (needsImprovement thresholds))
           in if gt64 ratio (Fin 1.5) then Critical
              else if gt64 ratio (Fin 1.0) then Warning
              else Info))"

text \<open>The alert, with its numbers as doubles.\<close>

record RegressionAlert64 =
  n_metric :: string
  n_url :: "string option"
  n_previousValue :: jsnum
  n_currentValue :: jsnum
  n_absoluteChange :: jsnum
  n_percentageChange :: jsnum
  n_zScore :: jsnum
  n_severity :: severity_level
  n_detectedAt :: real
  n_windowSize :: int
  n_message :: string

text \<open>\<open>toFixed1\<close> formats a double, which may be NaN or infinite.\<close>

definition alertMessage64 ::
  "(jsnum \<Rightarrow> string) \<Rightarrow> string \<Rightarrow> string option \<Rightarrow> jsnum \<Rightarrow> jsnum \<Rightarrow> jsnum \<Rightarrow> string" where
  "alertMessage64 toFixed1 metricName u pct prevMean currMean =
     metricName @ '' degraded by '' @ toFixed1 (mul64 pct (Fin 100)) @ ''% (''
       @ toFixed1 prevMean @ [CHR '' '', CHR 0xE2, CHR 0x86, CHR 0x92, CHR '' '']
       @ toFixed1 currMean @ '')''
       @ (case u of None \<Rightarrow> [] | Some s \<Rightarrow> if s = [] then [] else '' on '' @ s)"

definition regressionAlert64 ::
  "AnalyticsConfig \<Rightarrow> (jsnum \<Rightarrow> string) \<Rightarrow> real \<Rightarrow> string \<Rightarrow> MetricDataPoint list
     \<Rightarrow> RegressionAlert64 option" where
  "regressionAlert64 cfg toFixed1 now seriesKey sortedPoints =
     (let values = map (\<lambda>p. round64 (val p)) sortedPoints;
          effWindow = effectiveWindow cfg values;
          currWindow = currentWindow cfg values;
          prevWindow = previousWindow cfg values
      in if int (length prevWindow) < minSamples cfg then None
         else
           (let prevMean = mean64 prevWindow;
                currMean = mean64 currWindow
            in if eq64 prevMean (Fin 0) then None
               else
                 (let absChange = sub64 currMean prevMean;
                      pctChange = div64 absChange prevMean
                  in if lt64 pctChange (round64 (regressionPercentThreshold cfg)) then None
                     else
                       (let prevStdDev = stdDev64 prevWindow;
                            z = zScore64 currMean prevMean prevStdDev
                        in if lt64 (abs64 z) (Fin 1.5) then None
                           else
                             (let parts = split CHR ''|'' seriesKey;
                                  metricName = (case parts of [] \<Rightarrow> [] | m # _ \<Rightarrow> m);
                                  u = (if CHR ''|'' \<in> set seriesKey then index_opt parts 1
                                       else None);
                                  sev = (if gt64 pctChange (Fin 0.5) then Critical
                                         else if gt64 pctChange (round64 0.3) then Warning
                                         else getSeverity64 metricName currMean None)
                              in Some
                                   \<lparr>n_metric = metricName,
                                    n_url = u,
                                    n_previousValue = prevMean,
                                    n_currentValue = currMean,
                                    n_absoluteChange = absChange,
                                    n_percentageChange = pctChange,
                                    n_zScore = z,
                                    n_severity = sev,
                                    n_detectedAt = now,
                                    n_windowSize = effWindow,
                                    n_message = alertMessage64 toFixed1 metricName u pctChange
                                                  prevMean currMean\<rparr>)))))"

definition regressionCallback64 ::
  "AnalyticsConfig \<Rightarrow> (jsnum \<Rightarrow> string) \<Rightarrow> real \<Rightarrow> string \<Rightarrow> addr
     \<Rightarrow> RegressionAlert64 list \<Rightarrow> array_store \<Rightarrow> RegressionAlert64 list \<times> array_store" where
  "regressionCallback64 cfg toFixed1 now seriesKey pa alerts h =
     (let points = h ! pa
      in if int (length points) < minSamples cfg * 2 then (alerts, h)
         else
           (let (sa, h') = sorted_copy pa h
            in case regressionAlert64 cfg toFixed1 now seriesKey (h' ! sa) of
                 None \<Rightarrow> (alerts, h')
               | Some alert \<Rightarrow> (alerts @ [alert], h')))"

fun regressions_forEach64 ::
  "AnalyticsConfig \<Rightarrow> (jsnum \<Rightarrow> string) \<Rightarrow> real \<Rightarrow> (string \<times> addr) list
     \<Rightarrow> RegressionAlert64 list \<Rightarrow> array_store \<Rightarrow> RegressionAlert64 list \<times> array_store" where
  "regressions_forEach64 cfg toFixed1 now [] alerts h = (alerts, h)"
| "regressions_forEach64 cfg toFixed1 now ((seriesKey, pa) # rest) alerts h =
     (let (alerts', h') = regressionCallback64 cfg toFixed1 now seriesKey pa alerts h
      in regressions_forEach64 cfg toFixed1 now rest alerts' h')"

definition detectRegressions64 ::
  "(jsnum \<Rightarrow> string) \<Rightarrow> real \<Rightarrow> RegressionDetector
     \<Rightarrow> RegressionAlert64 list \<times> RegressionDetector" where
  "detectRegressions64 toFixed1 now d =
     (let (alerts, h) = regressions_forEach64 (config d) toFixed1 now (series d) [] (arrays d)
      in (alerts, d\<lparr>arrays := h\<rparr>))"

text \<open>The alert of one stored series, and the alerts of the stored series in order.\<close>

definition series_regression64 ::
  "AnalyticsConfig \<Rightarrow> (jsnum \<Rightarrow> string) \<Rightarrow> real \<Rightarrow> string \<Rightarrow> MetricDataPoint list
     \<Rightarrow> RegressionAlert64 option" where
  "series_regression64 cfg toFixed1 now k points =
     (if int (length points) < minSamples cfg * 2 then None
      else regressionAlert64 cfg toFixed1 now k (sort_key timestamp points))"

definition regressions_of64 ::
  "AnalyticsConfig \<Rightarrow> (jsnum \<Rightarrow> string) \<Rightarrow> real \<Rightarrow> (string \<times> MetricDataPoint list) list
     \<Rightarrow> RegressionAlert64 list" where
  "regressions_of64 cfg toFixed1 now cs =
     List.map_filter (\<lambda>(k, points). series_regression64 cfg toFixed1 now k points) cs"

section \<open>Example inputs\<close>

text \<open>A data point with a name, a value and a timestamp, and the configuration of the
  repository's detector tests.\<close>

definition example_point :: "string \<Rightarrow> real \<Rightarrow> real \<Rightarrow> MetricDataPoint" where
  "example_point nm v t =
     \<lparr>name = nm, val = v, timestamp = t, url = None, pathname = None, rating = None,
      sessionId = None\<rparr>"

definition test_config :: ConfigOverrides where
  "test_config =
     \<lparr>o_windowSize = Some 10, o_zScoreThreshold = Some 2.0, o_minSamples = Some 5,
      o_regressionPercentThreshold = Some 0.2, o_customThresholds = None\<rparr>"

text \<open>\<open>createPoints\<close> of the detector tests: one point per value, a second apart.\<close>

definition createPoints :: "string \<Rightarrow> real list \<Rightarrow> real \<Rightarrow> MetricDataPoint list" where
  "createPoints nm values startTime =
     map (\<lambda>(v, i). example_point nm v (startTime + real i * 1000))
       (zip values [0 ..< length values])"

text \<open>A detector with the test configuration and one series of ten points: five around
  1000, then five at \<open>v\<close>.\<close>

definition stepped_detector :: "real \<Rightarrow> RegressionDetector" where
  "stepped_detector v =
     addDataPoints (createPoints ''LCP'' [998, 998, 1000, 1002, 1002, v, v, v, v, v] 0)
       (newDetector test_config)"

text \<open>A detector with one series \<open>LCP\<close> of the given values, a second apart.\<close>

definition example_detector :: "ConfigOverrides \<Rightarrow> real list \<Rightarrow> RegressionDetector" where
  "example_detector c values = addDataPoints (createPoints ''LCP'' values 0) (newDetector c)"

text \<open>The largest power of two among the doubles, about \<open>8.99e307\<close>, and a detector with the
  test configuration and one series of ten points of that value.\<close>

definition huge :: real where "huge = 2 ^ 1023"

definition overflow_detector :: RegressionDetector where
  "overflow_detector =
     example_detector test_config [huge, huge, huge, huge, huge, huge, huge, huge, huge, huge]"

section \<open>Properties of the statistics and of the thresholds\<close>

lemma foldl_add_sum_list: "foldl (\<lambda>sum v. sum + v) a xs = a + sum_list (xs :: real list)"
  by (induction xs arbitrary: a) simp_all

lemma mean_sum_list: "mean xs = (if xs = [] then 0 else sum_list xs / real (length xs))"
  by (simp add: mean_def foldl_add_sum_list)

text \<open>What \<open>linearTrend\<close> returns on two or more values, with the sums of its loop named.\<close>

lemma linearTrend_unfold:
  assumes "2 \<le> length values"
  obtains s where "linearTrend values =
     \<lparr>slope = s, direction =
        (if \<bar>if mean values = 0 then 0 else s / mean values\<bar> < 0.005 then Stable
         else if (if mean values = 0 then 0 else s / mean values) > 0 then Degrading
         else Improving)\<rparr>"
proof -
  obtain num den where
    nd: "trend_sums values ((real (length values) - 1) / 2) (mean values) = (num, den)"
    by (cases "trend_sums values ((real (length values) - 1) / 2) (mean values)")
  show thesis
    by (rule that [of "if den = 0 then 0 else num / den"])
       (use assms nd in \<open>simp add: linearTrend_def Let_def del: abs_divide\<close>)
qed

text \<open>
  On a list whose mean is positive, as for latencies and layout shifts, the direction
  follows the sign of the slope: the slope and the slope divided by the mean have the
  same sign.
\<close>

lemma linearTrend_positive_mean:
  assumes "2 \<le> length values" and "0 < mean values"
  shows "(\<bar>slope (linearTrend values) / mean values\<bar> < 0.005 \<longrightarrow>
            direction (linearTrend values) = Stable) \<and>
         (\<bar>slope (linearTrend values) / mean values\<bar> \<ge> 0.005 \<and>
            slope (linearTrend values) > 0 \<longrightarrow>
            direction (linearTrend values) = Degrading) \<and>
         (\<bar>slope (linearTrend values) / mean values\<bar> \<ge> 0.005 \<and>
            slope (linearTrend values) < 0 \<longrightarrow>
            direction (linearTrend values) = Improving)"
proof -
  obtain s where t: "linearTrend values =
     \<lparr>slope = s, direction =
        (if \<bar>if mean values = 0 then 0 else s / mean values\<bar> < 0.005 then Stable
         else if (if mean values = 0 then 0 else s / mean values) > 0 then Degrading
         else Improving)\<rparr>"
    using linearTrend_unfold [OF assms(1)] by blast
  have pos: "0 < s / mean values \<longleftrightarrow> 0 < s"
    using assms(2) by (simp add: zero_less_divide_iff)
  show ?thesis
    unfolding t using assms(2) pos by (auto simp del: abs_divide)
qed

text \<open>On a list whose mean is negative the two signs are opposite, and so is the
  direction.\<close>

lemma linearTrend_negative_mean_reversed:
  assumes "2 \<le> length values" and "mean values < 0"
  shows "(\<bar>slope (linearTrend values) / mean values\<bar> \<ge> 0.005 \<and>
            slope (linearTrend values) > 0 \<longrightarrow>
            direction (linearTrend values) = Improving) \<and>
         (\<bar>slope (linearTrend values) / mean values\<bar> \<ge> 0.005 \<and>
            slope (linearTrend values) < 0 \<longrightarrow>
            direction (linearTrend values) = Degrading)"
proof -
  obtain s where t: "linearTrend values =
     \<lparr>slope = s, direction =
        (if \<bar>if mean values = 0 then 0 else s / mean values\<bar> < 0.005 then Stable
         else if (if mean values = 0 then 0 else s / mean values) > 0 then Degrading
         else Improving)\<rparr>"
    using linearTrend_unfold [OF assms(1)] by blast
  have pos: "0 < s / mean values \<longleftrightarrow> s < 0"
    using assms(2) by (simp add: zero_less_divide_iff)
  show ?thesis
    unfolding t using assms(2) pos by (auto simp del: abs_divide)
qed

lemma linearTrend_rising_example:
  "linearTrend [100, 200, 300, 400, 500] = \<lparr>slope = 100, direction = Degrading\<rparr>"
  by (simp add: linearTrend_def trend_sums_def mean_def Let_def upt_rec power2_eq_square)

lemma linearTrend_falling_example:
  "linearTrend [500, 400, 300, 200, 100] = \<lparr>slope = - 100, direction = Improving\<rparr>"
  by (simp add: linearTrend_def trend_sums_def mean_def Let_def upt_rec power2_eq_square)

text \<open>
  C6. The claim: whenever the slope divided by the mean is at least 0.005 in absolute
  value, \<open>linearTrend\<close> returns \<open>degrading\<close> for a slope above 0 and \<open>improving\<close> for a slope
  below 0. The code tests the sign of the normalized slope, not of the slope. On the rising
  list \<open>[-3, -1]\<close> the least-squares slope is 2 and the mean is \<open>-2\<close>, so the normalized slope
  is \<open>-1\<close>: of absolute value at least 0.005, and negative. The code returns \<open>improving\<close> for
  rising values, against the comment above that very line of the source ("increasing
  value = degrading").
\<close>

theorem linearTrend_negative_mean:
  "slope (linearTrend [- 3, - 1]) = 2 \<and> mean [- 3, - 1] = - 2 \<and>
   \<bar>slope (linearTrend [- 3, - 1]) / mean [- 3, - 1]\<bar> \<ge> 0.005 \<and>
   direction (linearTrend [- 3, - 1]) = Improving"
  by (simp add: linearTrend_def trend_sums_def mean_def Let_def power2_eq_square)

text \<open>
  C7. \<open>getSeverity\<close> takes the boundary from the caller's map when that has an entry for the
  name, else from the fixed table; with no entry in either it returns \<open>info\<close>. With a
  boundary, it returns \<open>critical\<close> exactly when value / boundary > 1.5, \<open>warning\<close> exactly when
  the ratio is > 1.0 and \<le> 1.5, and \<open>info\<close> otherwise. The ratio is the quotient
  JavaScript computes, which for a non-zero boundary is the quotient of the reals.
\<close>

theorem getSeverity_ratio:
  "(lookupThresholds nm ct = None \<longleftrightarrow>
      (case ct of None \<Rightarrow> None | Some m \<Rightarrow> m nm) = None \<and> WEB_VITALS_THRESHOLDS nm = None) \<and>
   (\<forall>m t. ct = Some m \<and> m nm = Some t \<longrightarrow> lookupThresholds nm ct = Some t) \<and>
   ((case ct of None \<Rightarrow> None | Some m \<Rightarrow> m nm) = None \<longrightarrow>
      lookupThresholds nm ct = WEB_VITALS_THRESHOLDS nm) \<and>
   (case lookupThresholds nm ct of
      None \<Rightarrow> getSeverity nm v ct = Info
    | Some t \<Rightarrow>
        (getSeverity nm v ct = Critical \<longleftrightarrow> js_gt (js_div v (needsImprovement t)) 1.5) \<and>
        (getSeverity nm v ct = Warning \<longleftrightarrow>
           js_gt (js_div v (needsImprovement t)) 1.0 \<and>
           js_le (js_div v (needsImprovement t)) 1.5) \<and>
        (getSeverity nm v ct = Info \<longleftrightarrow> \<not> js_gt (js_div v (needsImprovement t)) 1.0) \<and>
        (needsImprovement t \<noteq> 0 \<longrightarrow>
           js_div v (needsImprovement t) = Fin (v / needsImprovement t)))"
proof -
  have look: "(lookupThresholds nm ct = None \<longleftrightarrow>
      (case ct of None \<Rightarrow> None | Some m \<Rightarrow> m nm) = None \<and> WEB_VITALS_THRESHOLDS nm = None) \<and>
   (\<forall>m t. ct = Some m \<and> m nm = Some t \<longrightarrow> lookupThresholds nm ct = Some t) \<and>
   ((case ct of None \<Rightarrow> None | Some m \<Rightarrow> m nm) = None \<longrightarrow>
      lookupThresholds nm ct = WEB_VITALS_THRESHOLDS nm)"
    by (auto simp: lookupThresholds_def split: option.splits)
  have sev: "case lookupThresholds nm ct of
      None \<Rightarrow> getSeverity nm v ct = Info
    | Some t \<Rightarrow>
        (getSeverity nm v ct = Critical \<longleftrightarrow> js_gt (js_div v (needsImprovement t)) 1.5) \<and>
        (getSeverity nm v ct = Warning \<longleftrightarrow>
           js_gt (js_div v (needsImprovement t)) 1.0 \<and>
           js_le (js_div v (needsImprovement t)) 1.5) \<and>
        (getSeverity nm v ct = Info \<longleftrightarrow> \<not> js_gt (js_div v (needsImprovement t)) 1.0) \<and>
        (needsImprovement t \<noteq> 0 \<longrightarrow>
           js_div v (needsImprovement t) = Fin (v / needsImprovement t))"
  proof (cases "lookupThresholds nm ct")
    case None
    then show ?thesis by (simp add: getSeverity_def)
  next
    case (Some t)
    show ?thesis
      by (cases "js_div v (needsImprovement t)")
         (auto simp: Some getSeverity_def Let_def js_div_def split: if_splits)
  qed
  from look sev show ?thesis by blast
qed

theorem getSeverity_ratio_witness:
  "getSeverity ''LCP'' 8000 None = Critical \<and> getSeverity ''LCP'' 4500 None = Warning \<and>
   getSeverity ''LCP'' 1000 None = Info \<and> getSeverity ''unknown'' 999 None = Info \<and>
   getSeverity ''LCP'' 4500 (Some [''LCP'' \<mapsto> \<lparr>good = 1, needsImprovement = 2\<rparr>]) = Critical"
  using getSeverity_ratio [of "''LCP''" None 8000] getSeverity_ratio [of "''LCP''" None 4500]
    getSeverity_ratio [of "''LCP''" None 1000] getSeverity_ratio [of "''unknown''" None 999]
    getSeverity_ratio [of "''LCP''" "Some [''LCP'' \<mapsto> \<lparr>good = 1, needsImprovement = 2\<rparr>]" 4500]
  by (simp add: lookupThresholds_def WEB_VITALS_THRESHOLDS_def js_div_def)

section \<open>The analyses and the store\<close>

text \<open>
  A copy goes to the end of the store, so an analysis leaves every array that was there
  before as it was, and what it returns is a function of the configuration and of the
  points stored for each key.
\<close>

lemma sorted_copy_valid:
  "pa < length h \<Longrightarrow> sorted_copy pa h = (length h, h @ [sort_key timestamp (h ! pa)])"
  by (simp add: sorted_copy_def new_array_def nth_append)

lemma addrs_valid_append: "addrs_valid m h \<Longrightarrow> addrs_valid m (h @ ext)"
  by (auto simp: addrs_valid_def list_all_iff)

lemma contents_append: "addrs_valid m h \<Longrightarrow> contents (h @ ext) m = contents h m"
  by (auto simp: addrs_valid_def list_all_iff contents_def nth_append)

lemma anomalyCallback_valid:
  assumes "pa < length h"
  shows "\<exists>ext. anomalyCallback cfg k pa results h =
           (case series_anomaly cfg k (h ! pa) of
              Inl e \<Rightarrow> Inl e
            | Inr None \<Rightarrow> Inr results
            | Inr (Some r) \<Rightarrow> Inr (results @ [r]), h @ ext)"
proof (cases "int (length (h ! pa)) < minSamples cfg")
  case True
  then have "anomalyCallback cfg k pa results h = (Inr results, h @ [])"
    by (simp add: anomalyCallback_def)
  with True show ?thesis
    unfolding series_anomaly_def by (intro exI [of _ "[]"]) simp
next
  case False
  with assms show ?thesis
    by (intro exI [of _ "[sort_key timestamp (h ! pa)]"])
       (simp add: anomalyCallback_def series_anomaly_def sorted_copy_valid
          split: sum.splits option.splits)
qed

lemma anomalies_forEach_valid:
  "addrs_valid m h \<Longrightarrow>
   \<exists>ext. anomalies_forEach cfg m results h = (anomalies_of cfg (contents h m) results, h @ ext)"
proof (induction m arbitrary: results h)
  case Nil
  show ?case by (intro exI [of _ "[]"]) (simp add: contents_def)
next
  case (Cons e m)
  obtain k pa where e: "e = (k, pa)" by (cases e)
  from Cons.prems e have pa: "pa < length h" and m: "addrs_valid m h"
    by (simp_all add: addrs_valid_def)
  obtain ext where cb: "anomalyCallback cfg k pa results h =
           (case series_anomaly cfg k (h ! pa) of
              Inl e \<Rightarrow> Inl e
            | Inr None \<Rightarrow> Inr results
            | Inr (Some r) \<Rightarrow> Inr (results @ [r]), h @ ext)"
    using anomalyCallback_valid [OF pa] by blast
  have c: "contents (h @ ext) m = contents h m"
    by (rule contents_append [OF m])
  have step: "contents h ((k, pa) # m) = (k, h ! pa) # contents h m"
    by (simp add: contents_def)
  show ?case
  proof (cases "series_anomaly cfg k (h ! pa)")
    case (Inl err)
    then show ?thesis
      by (intro exI [of _ ext]) (simp add: e cb step)
  next
    case (Inr ro)
    define results' where "results' = (case ro of None \<Rightarrow> results | Some r \<Rightarrow> results @ [r])"
    obtain ext' where ih: "anomalies_forEach cfg m results' (h @ ext) =
        (anomalies_of cfg (contents (h @ ext) m) results', (h @ ext) @ ext')"
      using Cons.IH [OF addrs_valid_append [OF m], of results' ext] by blast
    from ih show ?thesis
      by (intro exI [of _ "ext @ ext'"])
         (cases ro; simp add: e cb step Inr c results'_def)
  qed
qed

lemma regressionCallback_valid:
  assumes "pa < length h"
  shows "\<exists>ext. regressionCallback cfg f now k pa alerts h =
           (alerts @ (case series_regression cfg f now k (h ! pa) of
                        None \<Rightarrow> [] | Some a \<Rightarrow> [a]), h @ ext)"
proof (cases "int (length (h ! pa)) < minSamples cfg * 2")
  case True
  then show ?thesis
    by (intro exI [of _ "[]"]) (simp add: regressionCallback_def series_regression_def)
next
  case False
  with assms show ?thesis
    by (intro exI [of _ "[sort_key timestamp (h ! pa)]"])
       (simp add: regressionCallback_def series_regression_def sorted_copy_valid
          split: option.splits)
qed

lemma regressions_forEach_valid:
  "addrs_valid m h \<Longrightarrow>
   \<exists>ext. regressions_forEach cfg f now m alerts h =
     (alerts @ regressions_of cfg f now (contents h m), h @ ext)"
proof (induction m arbitrary: alerts h)
  case Nil
  show ?case by (intro exI [of _ "[]"]) (simp add: contents_def regressions_of_def List.map_filter_simps)
next
  case (Cons e m)
  obtain k pa where e: "e = (k, pa)" by (cases e)
  from Cons.prems e have pa: "pa < length h" and m: "addrs_valid m h"
    by (simp_all add: addrs_valid_def)
  define new where "new = (case series_regression cfg f now k (h ! pa) of
                        None \<Rightarrow> [] | Some a \<Rightarrow> [a])"
  obtain ext where cb: "regressionCallback cfg f now k pa alerts h = (alerts @ new, h @ ext)"
    using regressionCallback_valid [OF pa] unfolding new_def by blast
  have c: "contents (h @ ext) m = contents h m"
    by (rule contents_append [OF m])
  have step: "regressions_of cfg f now (contents h ((k, pa) # m)) =
     new @ regressions_of cfg f now (contents h m)"
    by (simp add: contents_def regressions_of_def List.map_filter_simps new_def split: option.splits)
  obtain ext' where ih: "regressions_forEach cfg f now m (alerts @ new) (h @ ext) =
     ((alerts @ new) @ regressions_of cfg f now (contents (h @ ext) m), (h @ ext) @ ext')"
    using Cons.IH [OF addrs_valid_append [OF m], of "alerts @ new" ext] by blast
  show ?case
    by (intro exI [of _ "ext @ ext'"]) (simp add: e cb ih c step)
qed

lemma map_of_contents: "map_of (contents h m) k = map_option (\<lambda>pa. h ! pa) (map_of m k)"
  by (induction m) (auto simp: contents_def)

lemma addrs_valid_map_of: "addrs_valid m h \<Longrightarrow> map_of m k = Some pa \<Longrightarrow> pa < length h"
  by (auto simp: addrs_valid_def list_all_iff dest: map_of_SomeD)

lemma detectAnomalies_valid:
  assumes "addrs_valid (series d) (arrays d)"
  shows "\<exists>ext. detectAnomalies d =
           (anomalies_of (config d) (stored d) [], d\<lparr>arrays := arrays d @ ext\<rparr>)"
proof -
  obtain ext where "anomalies_forEach (config d) (series d) [] (arrays d) =
      (anomalies_of (config d) (contents (arrays d) (series d)) [], arrays d @ ext)"
    using anomalies_forEach_valid [OF assms] by blast
  then show ?thesis
    by (intro exI [of _ ext]) (simp add: detectAnomalies_def stored_def)
qed

lemma detectRegressions_valid:
  assumes "addrs_valid (series d) (arrays d)"
  shows "\<exists>ext. detectRegressions f now d =
           (regressions_of (config d) f now (stored d), d\<lparr>arrays := arrays d @ ext\<rparr>)"
proof -
  obtain ext where "regressions_forEach (config d) f now (series d) [] (arrays d) =
      ([] @ regressions_of (config d) f now (contents (arrays d) (series d)), arrays d @ ext)"
    using regressions_forEach_valid [OF assms] by blast
  then show ?thesis
    by (intro exI [of _ ext]) (simp add: detectRegressions_def stored_def)
qed

lemma analyzeTrend_valid:
  assumes "addrs_valid (series d) (arrays d)"
  shows "\<exists>ext. analyzeTrend nm u d =
           (trend_of (config d) (stored d) (key nm u), d\<lparr>arrays := arrays d @ ext\<rparr>)"
proof (cases "map_of (series d) (key nm u)")
  case None
  then show ?thesis
    by (intro exI [of _ "[]"])
       (simp add: analyzeTrend_def trend_of_def stored_def map_of_contents)
next
  case (Some pa)
  then have pa: "pa < length (arrays d)"
    using addrs_valid_map_of [OF assms] by blast
  show ?thesis
  proof (cases "int (length (arrays d ! pa)) < minSamples (config d)")
    case True
    with Some show ?thesis
      by (intro exI [of _ "[]"])
         (simp add: analyzeTrend_def trend_of_def stored_def map_of_contents)
  next
    case False
    with Some pa show ?thesis
      by (intro exI [of _ "[sort_key timestamp (arrays d ! pa)]"])
         (simp add: analyzeTrend_def trend_of_def stored_def map_of_contents sorted_copy_valid)
  qed
qed

lemma extended_store:
  assumes "addrs_valid (series d) (arrays d)"
  shows "stored (d\<lparr>arrays := arrays d @ ext\<rparr>) = stored d"
    and "addrs_valid (series (d\<lparr>arrays := arrays d @ ext\<rparr>)) (arrays (d\<lparr>arrays := arrays d @ ext\<rparr>))"
    and "store_inv d \<Longrightarrow> store_inv (d\<lparr>arrays := arrays d @ ext\<rparr>)"
  using assms by (simp_all add: stored_def contents_append addrs_valid_append store_inv_def)

text \<open>The state an analysis leaves: the same configuration and map, the store extended.\<close>

lemma analysis_call_state:
  assumes "addrs_valid (series d) (arrays d)" and "is_analysis c"
  shows "\<exists>ext. call f c d = d\<lparr>arrays := arrays d @ ext\<rparr>"
proof (cases c)
  case DetectAnomalies
  then show ?thesis using detectAnomalies_valid [OF assms(1)] by auto
next
  case (DetectRegressions now)
  then show ?thesis using detectRegressions_valid [OF assms(1), of f now] by auto
next
  case (AnalyzeTrend nm u)
  then show ?thesis using analyzeTrend_valid [OF assms(1), of nm u] by auto
qed (use assms(2) in simp_all)

section \<open>Adding points\<close>

lemma map_set_absent: "map_of m k = None \<Longrightarrow> map_set m k a = m @ [(k, a)]"
  by (induction m) (auto split: if_splits)

lemma map_set_same: "map_of m k = Some a \<Longrightarrow> map_set m k a = m"
  by (induction m) (auto split: if_splits)

lemma map_set_twice: "map_set (map_set m k a) k b = map_set m k b"
  by (induction m) auto

lemma map_of_map_set: "map_of (map_set m k a) = (map_of m)(k \<mapsto> a)"
  by (induction m) (auto simp: fun_eq_iff)

lemma keys_map_set:
  "map fst (map_set m k a) = (if k \<in> set (map fst m) then map fst m else map fst m @ [k])"
  by (induction m) (auto simp: rev_image_eqI)

lemma distinct_keys_map_set: "distinct (map fst m) \<Longrightarrow> distinct (map fst (map_set m k a))"
  by (simp add: keys_map_set)

lemma addrs_map_set: "set (map snd (map_set m k a)) \<subseteq> insert a (set (map snd m))"
  by (induction m) (force split: if_splits)+

lemma distinct_addrs_map_set:
  "distinct (map snd m) \<Longrightarrow> a \<notin> set (map snd m) \<Longrightarrow> distinct (map snd (map_set m k a))"
proof (induction m)
  case Nil
  show ?case by simp
next
  case (Cons e m)
  obtain k' a' where e: "e = (k', a')" by (cases e)
  from Cons show ?case
    using addrs_map_set [of m k a] by (auto simp: e)
qed

lemma addrs_valid_map_set:
  "addrs_valid m h \<Longrightarrow> a < length h \<Longrightarrow> addrs_valid (map_set m k a) h"
  by (induction m) (auto simp: addrs_valid_def)

lemma contents_map_set:
  assumes "distinct (map fst m)"
    and "\<forall>(k', pa') \<in> set m. k' \<noteq> k \<longrightarrow> h' ! pa' = h ! pa'"
    and "h' ! b = bound_to M ((case map_of m k of None \<Rightarrow> [] | Some pa \<Rightarrow> h ! pa) @ [p])"
  shows "contents h' (map_set m k b) = add_to (contents h m) k p M"
  using assms
proof (induction m)
  case Nil
  then show ?case by (simp add: contents_def)
next
  case (Cons e m)
  obtain k0 a0 where e: "e = (k0, a0)" by (cases e)
  show ?case
  proof (cases "k0 = k")
    case True
    from Cons.prems(1) have "k \<notin> fst ` set m" by (simp add: e True)
    with Cons.prems(2) have "\<forall>(k', pa') \<in> set m. h' ! pa' = h ! pa'"
      by (force simp: e)
    then have "contents h' m = contents h m"
      by (auto simp: contents_def)
    with Cons.prems(3) show ?thesis
      by (simp add: e True contents_def)
  next
    case False
    from Cons.prems False have "contents h' (map_set m k b) = add_to (contents h m) k p M"
      by (intro Cons.IH) (auto simp: e)
    moreover from Cons.prems(2) False have "h' ! a0 = h ! a0"
      by (simp add: e)
    ultimately show ?thesis
      using False by (simp add: e contents_def)
  qed
qed

lemma other_addr:
  assumes "distinct (map snd m)" and "map_of m k = Some pa" and "(k', pa') \<in> set m" and "k' \<noteq> k"
  shows "pa' \<noteq> pa"
proof
  assume "pa' = pa"
  from assms(2) have "(k, pa) \<in> set m" by (rule map_of_SomeD)
  with assms(1,3) \<open>pa' = pa\<close> have "(k', pa') = (k, pa)"
    by (metis eq_key_imp_eq_value distinct_map inj_on_def snd_conv)
  with assms(4) show False by simp
qed

lemma addrs_valid_longer: "addrs_valid m h \<Longrightarrow> length h \<le> length h' \<Longrightarrow> addrs_valid m h'"
  by (auto simp: addrs_valid_def list_all_iff)

lemma add_result:
  assumes inv: "store_inv d"
    and len: "length (arrays d) \<le> length h'"
    and others: "\<forall>(k', pa') \<in> set (series d). k' \<noteq> k \<longrightarrow> h' ! pa' = arrays d ! pa'"
    and b: "b < length h'"
    and fresh: "b \<notin> set (map snd (series d)) \<or> map_of (series d) k = Some b"
    and hb: "h' ! b = bound_to M ((case map_of (series d) k of None \<Rightarrow> []
                                   | Some pa \<Rightarrow> arrays d ! pa) @ [p])"
  shows "store_inv (d\<lparr>series := map_set (series d) k b, arrays := h'\<rparr>)"
    and "stored (d\<lparr>series := map_set (series d) k b, arrays := h'\<rparr>) = add_to (stored d) k p M"
proof -
  from inv have v: "addrs_valid (series d) (arrays d)" and dk: "distinct (map fst (series d))"
    and da: "distinct (map snd (series d))"
    by (simp_all add: store_inv_def)
  have "addrs_valid (map_set (series d) k b) h'"
    by (rule addrs_valid_map_set [OF addrs_valid_longer [OF v len] b])
  moreover have "distinct (map fst (map_set (series d) k b))"
    by (rule distinct_keys_map_set [OF dk])
  moreover have "distinct (map snd (map_set (series d) k b))"
    using fresh da by (auto simp: map_set_same distinct_addrs_map_set)
  ultimately show "store_inv (d\<lparr>series := map_set (series d) k b, arrays := h'\<rparr>)"
    by (simp add: store_inv_def)
  show "stored (d\<lparr>series := map_set (series d) k b, arrays := h'\<rparr>) = add_to (stored d) k p M"
    using contents_map_set [OF dk others hb] by (simp add: stored_def)
qed

lemma addDataPoint_new:
  assumes "map_of (series d) k = None" and "k = key (name p) (url p)"
  shows "addDataPoint p d =
     (if 1 > windowSize (config d) * 10
      then d\<lparr>series := map_set (series d) k (length (arrays d) + 1),
             arrays := arrays d @ [ [p], array_slice_from [p] (- (windowSize (config d) * 10))]\<rparr>
      else d\<lparr>series := map_set (series d) k (length (arrays d)),
             arrays := arrays d @ [ [p] ]\<rparr>)"
  using assms
  by (simp add: addDataPoint_def map_has_def new_array_def Let_def map_of_map_set map_set_twice)

lemma addDataPoint_old:
  assumes "map_of (series d) k = Some pa" and "k = key (name p) (url p)"
    and "pa < length (arrays d)"
  shows "addDataPoint p d =
     (if int (length (arrays d ! pa @ [p])) > windowSize (config d) * 10
      then d\<lparr>series := map_set (series d) k (length (arrays d)),
             arrays := (arrays d)[pa := arrays d ! pa @ [p] ]
                @ [array_slice_from (arrays d ! pa @ [p]) (- (windowSize (config d) * 10))]\<rparr>
      else d\<lparr>series := map_set (series d) k pa,
             arrays := (arrays d)[pa := arrays d ! pa @ [p] ]\<rparr>)"
  using assms
  by (simp add: addDataPoint_def map_has_def new_array_def Let_def map_set_same)

lemma addDataPoint_store:
  assumes inv: "store_inv d"
  shows "store_inv (addDataPoint p d) \<and>
         stored (addDataPoint p d) =
           add_to (stored d) (key (name p) (url p)) p (windowSize (config d) * 10) \<and>
         config (addDataPoint p d) = config d"
proof -
  define k where "k = key (name p) (url p)"
  define M where "M = windowSize (config d) * 10"
  from inv have v: "addrs_valid (series d) (arrays d)" and da: "distinct (map snd (series d))"
    by (simp_all add: store_inv_def)
  have lt: "pa' < length (arrays d)" if "(k', pa') \<in> set (series d)" for k' pa'
    using v that by (auto simp: addrs_valid_def list_all_iff)
  show ?thesis
  proof (cases "map_of (series d) k")
    case None
    show ?thesis
    proof (cases "1 > M")
      case True
      have eq: "addDataPoint p d = d\<lparr>series := map_set (series d) k (length (arrays d) + 1),
             arrays := arrays d @ [ [p], array_slice_from [p] (- M)]\<rparr>"
        using addDataPoint_new [OF None k_def] True by (simp add: M_def)
      have "store_inv (addDataPoint p d) \<and> stored (addDataPoint p d) = add_to (stored d) k p M"
        unfolding eq
        by (intro conjI add_result [OF inv])
           (use True None lt in \<open>auto simp: nth_append bound_to_def dest: lt\<close>)
      then show ?thesis by (simp add: k_def M_def eq)
    next
      case False
      have eq: "addDataPoint p d = d\<lparr>series := map_set (series d) k (length (arrays d)),
             arrays := arrays d @ [ [p] ]\<rparr>"
        using addDataPoint_new [OF None k_def] False by (simp add: M_def)
      have "store_inv (addDataPoint p d) \<and> stored (addDataPoint p d) = add_to (stored d) k p M"
        unfolding eq
        by (intro conjI add_result [OF inv])
           (use False None lt in \<open>auto simp: nth_append bound_to_def dest: lt\<close>)
      then show ?thesis by (simp add: k_def M_def eq)
    qed
  next
    case (Some pa)
    then have pa: "pa < length (arrays d)"
      using addrs_valid_map_of [OF v] by blast
    have ne: "pa \<noteq> pa'" if "(k', pa') \<in> set (series d)" "k' \<noteq> k" for k' pa'
      using other_addr [OF da Some that] by simp
    show ?thesis
    proof (cases "int (length (arrays d ! pa @ [p])) > M")
      case True
      have eq: "addDataPoint p d = d\<lparr>series := map_set (series d) k (length (arrays d)),
             arrays := (arrays d)[pa := arrays d ! pa @ [p] ]
                @ [array_slice_from (arrays d ! pa @ [p]) (- M)]\<rparr>"
        using addDataPoint_old [OF Some k_def pa] True by (simp add: M_def)
      have "store_inv (addDataPoint p d) \<and> stored (addDataPoint p d) = add_to (stored d) k p M"
        unfolding eq
        by (intro conjI add_result [OF inv])
           (use True Some lt ne in \<open>auto simp: nth_append bound_to_def dest: lt\<close>)
      then show ?thesis by (simp add: k_def M_def eq)
    next
      case False
      have eq: "addDataPoint p d = d\<lparr>series := map_set (series d) k pa,
             arrays := (arrays d)[pa := arrays d ! pa @ [p] ]\<rparr>"
        using addDataPoint_old [OF Some k_def pa] False by (simp add: M_def)
      have "store_inv (addDataPoint p d) \<and> stored (addDataPoint p d) = add_to (stored d) k p M"
        unfolding eq
        by (intro conjI add_result [OF inv])
           (use False Some pa ne in \<open>auto simp: bound_to_def\<close>)
      then show ?thesis by (simp add: k_def M_def eq)
    qed
  qed
qed

lemma addDataPoints_store:
  "store_inv d \<Longrightarrow>
   store_inv (addDataPoints ps d) \<and> config (addDataPoints ps d) = config d"
proof (induction ps arbitrary: d)
  case Nil
  then show ?case by simp
next
  case (Cons p ps)
  from addDataPoint_store [OF Cons.prems, of p]
  have "store_inv (addDataPoint p d)" and "config (addDataPoint p d) = config d"
    by simp_all
  with Cons.IH [of "addDataPoint p d"] show ?case by simp
qed

lemma addDataPoints_append:
  "addDataPoints (ps @ qs) d = addDataPoints qs (addDataPoints ps d)"
  by (induction ps arbitrary: d) simp_all

lemma newDetector_store: "store_inv (newDetector c)" "stored (newDetector c) = []"
  by (simp_all add: newDetector_def store_inv_def addrs_valid_def stored_def contents_def)

lemma clear_store:
  assumes "store_inv d"
  shows "store_inv (clear nm u d)" and "config (clear nm u d) = config d"
    and "set (stored (clear nm u d)) \<subseteq> set (stored d)"
proof -
  have ar: "arrays (clear nm u d) = arrays d"
    by (simp add: clear_def split: option.splits)
  have "series (clear nm u d) = filter (\<lambda>_. False) (series d) \<or>
        series (clear nm u d) = filter (\<lambda>(k', a). k' \<noteq> key (the nm) u) (series d)"
    by (simp add: clear_def map_delete_def split: option.splits)
  then have filt: "\<exists>P. series (clear nm u d) = filter P (series d)"
    by blast
  from filt obtain P where P: "series (clear nm u d) = filter P (series d)" by blast
  from assms show "store_inv (clear nm u d)"
    by (auto simp: store_inv_def addrs_valid_def list_all_iff P ar distinct_map_filter)
  show "config (clear nm u d) = config d"
    by (simp add: clear_def split: option.splits)
  show "set (stored (clear nm u d)) \<subseteq> set (stored d)"
    by (auto simp: stored_def contents_def P ar)
qed

lemma analysis_call_store:
  assumes "store_inv d" and "is_analysis c"
  shows "store_inv (call f c d)" and "config (call f c d) = config d"
    and "stored (call f c d) = stored d" and "series (call f c d) = series d"
    and "take (length (arrays d)) (arrays (call f c d)) = arrays d"
proof -
  from assms(1) have v: "addrs_valid (series d) (arrays d)" by (simp add: store_inv_def)
  obtain ext where e: "call f c d = d\<lparr>arrays := arrays d @ ext\<rparr>"
    using analysis_call_state [OF v assms(2)] by blast
  show "store_inv (call f c d)" unfolding e by (rule extended_store(3) [OF v assms(1)])
  show "stored (call f c d) = stored d" unfolding e by (rule extended_store(1) [OF v])
  show "config (call f c d) = config d" "series (call f c d) = series d"
    "take (length (arrays d)) (arrays (call f c d)) = arrays d"
    by (simp_all add: e)
qed

lemma call_store:
  assumes "store_inv d"
  shows "store_inv (call f c d) \<and> config (call f c d) = config d"
proof (cases "is_analysis c")
  case True
  then show ?thesis using analysis_call_store [OF assms] by simp
next
  case False
  then show ?thesis
    using addDataPoint_store [OF assms] addDataPoints_store [OF assms] clear_store [OF assms]
    by (cases c) simp_all
qed

lemma calls_store:
  "store_inv d \<Longrightarrow> store_inv (calls f cs d) \<and> config (calls f cs d) = config d"
proof (induction cs arbitrary: d)
  case Nil
  then show ?case by (simp add: calls_def)
next
  case (Cons c cs)
  from call_store [OF Cons.prems, of f c] Cons.IH [of "call f c d"]
  show ?case by (simp add: calls_def)
qed

lemma bound_to_drop: "1 \<le> M \<Longrightarrow> bound_to M arr = drop (length arr - nat M) arr"
  by (auto simp: bound_to_def array_slice_from_def array_slice_def Let_def nat_diff_distrib)

lemma bound_to_length: "1 \<le> M \<Longrightarrow> int (length (bound_to M arr)) \<le> M"
  by (simp add: bound_to_drop)

lemma add_to_bounded:
  "1 \<le> M \<Longrightarrow> list_all (\<lambda>(k, xs). int (length xs) \<le> M) cs \<Longrightarrow>
   list_all (\<lambda>(k, xs). int (length xs) \<le> M) (add_to cs k p M)"
  by (induction cs) (auto simp: bound_to_length)

lemma addDataPoint_bounded:
  assumes "store_inv d" and "1 \<le> windowSize (config d)"
    and "list_all (\<lambda>(k, xs). int (length xs) \<le> windowSize (config d) * 10) (stored d)"
  shows "list_all (\<lambda>(k, xs). int (length xs) \<le> windowSize (config d) * 10)
           (stored (addDataPoint p d))"
  using addDataPoint_store [OF assms(1), of p] add_to_bounded [OF _ assms(3)] assms(2)
  by simp

lemma addDataPoints_bounded:
  "store_inv d \<Longrightarrow> 1 \<le> windowSize (config d) \<Longrightarrow>
   list_all (\<lambda>(k, xs). int (length xs) \<le> windowSize (config d) * 10) (stored d) \<Longrightarrow>
   list_all (\<lambda>(k, xs). int (length xs) \<le> windowSize (config d) * 10)
     (stored (addDataPoints ps d))"
proof (induction ps arbitrary: d)
  case Nil
  then show ?case by simp
next
  case (Cons p ps)
  from addDataPoint_store [OF Cons.prems(1), of p]
  have inv: "store_inv (addDataPoint p d)" and cfg: "config (addDataPoint p d) = config d"
    by simp_all
  from Cons.IH [OF inv] addDataPoint_bounded [OF Cons.prems, of p] Cons.prems(2)
  show ?case by (simp add: cfg)
qed

lemma call_bounded:
  assumes "store_inv d" and "1 \<le> windowSize (config d)"
    and "list_all (\<lambda>(k, xs). int (length xs) \<le> windowSize (config d) * 10) (stored d)"
  shows "list_all (\<lambda>(k, xs). int (length xs) \<le> windowSize (config d) * 10)
           (stored (call f c d))"
proof (cases "is_analysis c")
  case True
  then show ?thesis using analysis_call_store(3) [OF assms(1)] assms(3) by simp
next
  case False
  then show ?thesis
  proof (cases c)
    case (AddDataPoint p)
    then show ?thesis using addDataPoint_bounded [OF assms] by simp
  next
    case (AddDataPoints ps)
    then show ?thesis using addDataPoints_bounded [OF assms] by simp
  next
    case (Clear nm u)
    then show ?thesis
      using clear_store(3) [OF assms(1), of nm u] assms(3)
      by (auto simp: list_all_iff)
  qed simp_all
qed

lemma calls_bounded:
  "store_inv d \<Longrightarrow> 1 \<le> windowSize (config d) \<Longrightarrow>
   list_all (\<lambda>(k, xs). int (length xs) \<le> windowSize (config d) * 10) (stored d) \<Longrightarrow>
   list_all (\<lambda>(k, xs). int (length xs) \<le> windowSize (config d) * 10)
     (stored (calls f cs d))"
proof (induction cs arbitrary: d)
  case Nil
  then show ?case by (simp add: calls_def)
next
  case (Cons c cs)
  from call_store [OF Cons.prems(1), of f c]
  have inv: "store_inv (call f c d)" and cfg: "config (call f c d) = config d"
    by simp_all
  from Cons.IH [OF inv] call_bounded [OF Cons.prems, of f c] Cons.prems(2)
  show ?case by (simp add: cfg calls_def)
qed

lemma add_same_key:
  assumes "store_inv d" and "stored d = []" and "1 \<le> windowSize (config d)"
  shows "ps \<noteq> [] \<Longrightarrow> \<forall>p \<in> set ps. key (name p) (url p) = k \<Longrightarrow>
         stored (addDataPoints ps d) =
           [(k, drop (length ps - nat (windowSize (config d) * 10)) ps)]"
proof (induction ps rule: rev_induct)
  case Nil
  then show ?case by simp
next
  case (snoc p ps)
  define M where "M = windowSize (config d) * 10"
  have M: "1 \<le> M" using assms(3) by (simp add: M_def)
  let ?d = "addDataPoints ps d"
  from addDataPoints_store [OF assms(1), of ps]
  have inv: "store_inv ?d" and cfg: "config ?d = config d" by simp_all
  from snoc.prems have k: "key (name p) (url p) = k" by simp
  have step: "stored (addDataPoints (ps @ [p]) d) = add_to (stored ?d) k p M"
    using addDataPoint_store [OF inv, of p] by (simp add: addDataPoints_append cfg k M_def)
  show ?case
  proof (cases "ps = []")
    case True
    with step assms(2) M show ?thesis
      by (simp add: bound_to_drop M_def [symmetric])
  next
    case False
    with snoc have "stored ?d = [(k, drop (length ps - nat M) ps)]"
      by (simp add: M_def)
    moreover have "Suc (length ps) - (length ps - nat M + nat M) + (length ps - nat M) =
        Suc (length ps) - nat M"
      by arith
    ultimately show ?thesis
      using step M by (simp add: bound_to_drop M_def [symmetric] Suc_diff_le min_def)
  qed
qed

lemma getDataPointCount_stored:
  "getDataPointCount nm u d =
     (case map_of (stored d) (key nm u) of None \<Rightarrow> 0 | Some xs \<Rightarrow> length xs)"
  by (simp add: getDataPointCount_def stored_def map_of_contents split: option.splits)

text \<open>
  C2. Take a newly constructed detector whose \<open>windowSize\<close> is at least 1. After every
  sequence of calls of its methods (so after each call of a sequence of
  \<open>addDataPoint\<close>/\<open>addDataPoints\<close> calls), every stored series has at most
  \<open>windowSize \<times> 10\<close> points. With \<open>windowSize = 10\<close>, appending 200 points of one series key
  leaves exactly one series, holding the last 100 of them in the order appended.
\<close>

theorem series_length_bounded:
  "(1 \<le> windowSize (config (newDetector c)) \<longrightarrow>
      list_all (\<lambda>(k, points). int (length points) \<le> windowSize (config (newDetector c)) * 10)
        (stored (calls toFixed1 cs (newDetector c)))) \<and>
   (o_windowSize c = Some 10 \<and> length ps = 200 \<and> (\<forall>p \<in> set ps. key (name p) (url p) = k) \<longrightarrow>
      stored (addDataPoints ps (newDetector c)) = [(k, drop 100 ps)] \<and>
      (\<forall>nm u. key nm u = k \<longrightarrow> getDataPointCount nm u (addDataPoints ps (newDetector c)) = 100))"
proof (intro conjI impI)
  assume "1 \<le> windowSize (config (newDetector c))"
  then show "list_all (\<lambda>(k, points). int (length points) \<le> windowSize (config (newDetector c)) * 10)
        (stored (calls toFixed1 cs (newDetector c)))"
    by (intro calls_bounded newDetector_store) (simp_all add: newDetector_store)
next
  assume a: "o_windowSize c = Some 10 \<and> length ps = 200 \<and> (\<forall>p \<in> set ps. key (name p) (url p) = k)"
  then have w: "windowSize (config (newDetector c)) = 10"
    by (simp add: newDetector_def)
  from a have "ps \<noteq> []" by auto
  with a w add_same_key [OF newDetector_store, of c ps k]
  have st: "stored (addDataPoints ps (newDetector c)) = [(k, drop 100 ps)]"
    by simp
  then show "stored (addDataPoints ps (newDetector c)) = [(k, drop 100 ps)]" .
  from a st show "\<forall>nm u. key nm u = k \<longrightarrow> getDataPointCount nm u (addDataPoints ps (newDetector c)) = 100"
    by (simp add: getDataPointCount_stored)
qed

theorem series_length_bounded_witness:
  "1 \<le> windowSize (config (newDetector test_config)) \<and>
   list_all (\<lambda>(k, points). int (length points) \<le> 100)
     (stored (calls (\<lambda>x. []) [AddDataPoint (example_point ''LCP'' 2000 1), DetectAnomalies,
        AddDataPoints [example_point ''CLS'' 0.1 2, example_point ''LCP'' 2100 3] ]
        (newDetector test_config))) \<and>
   length (map (\<lambda>i. example_point ''LCP'' 1000 (real i)) [0 ..< 200]) = 200 \<and>
   stored (addDataPoints (map (\<lambda>i. example_point ''LCP'' 1000 (real i)) [0 ..< 200])
     (newDetector test_config)) =
     [(''LCP'', map (\<lambda>i. example_point ''LCP'' 1000 (real i)) [100 ..< 200])] \<and>
   getDataPointCount ''LCP'' None
     (addDataPoints (map (\<lambda>i. example_point ''LCP'' 1000 (real i)) [0 ..< 200])
        (newDetector test_config)) = 100"
proof -
  have w: "windowSize (config (newDetector test_config)) = 10" "o_windowSize test_config = Some 10"
    by (simp_all add: newDetector_def test_config_def)
  have k: "\<forall>p \<in> set (map (\<lambda>i. example_point ''LCP'' 1000 (real i)) [0 ..< 200]).
     key (name p) (url p) = ''LCP''"
    by (simp add: example_point_def key_def)
  have d: "drop 100 (map (\<lambda>i. example_point ''LCP'' 1000 (real i)) [0 ..< 200]) =
     map (\<lambda>i. example_point ''LCP'' 1000 (real i)) [100 ..< 200]"
    by (simp add: drop_map)
  have kk: "key ''LCP'' None = ''LCP''" by (simp add: key_def)
  show ?thesis
    using series_length_bounded [of test_config "\<lambda>x. []"
        "[AddDataPoint (example_point ''LCP'' 2000 1), DetectAnomalies,
        AddDataPoints [example_point ''CLS'' 0.1 2, example_point ''LCP'' 2100 3] ]"
        "map (\<lambda>i. example_point ''LCP'' 1000 (real i)) [0 ..< 200]" "''LCP''"] w k kk
    by (simp add: d)
qed

section \<open>States of the detector and the analyses\<close>

lemma reachable_store:
  "store_inv (calls f cs (newDetector c))"
  "addrs_valid (series (calls f cs (newDetector c))) (arrays (calls f cs (newDetector c)))"
  using calls_store [OF newDetector_store(1), of f cs c] by (simp_all add: store_inv_def)

lemma getSeriesCount_stored: "getSeriesCount d = length (stored d)"
  by (simp add: getSeriesCount_def stored_def contents_def)

text \<open>
  C9. In every state of the detector, \<open>detectAnomalies\<close>, \<open>detectRegressions\<close> and
  \<open>analyzeTrend\<close> leave the series store as it is: the map holds the same keys at the same
  arrays, every array that was in the store has the same points in the same order (the
  analysis sorts a copy, which is a new array), and \<open>getSeriesCount\<close> and
  \<open>getDataPointCount\<close> return what they returned before the call.
\<close>

theorem analyses_keep_store:
  assumes "d = calls toFixed1 cs (newDetector c)"
    and "d' = snd (detectAnomalies d) \<or> d' = snd (detectRegressions toFixed1 now d) \<or>
         d' = snd (analyzeTrend nm u d)"
  shows "config d' = config d \<and> series d' = series d \<and>
         take (length (arrays d)) (arrays d') = arrays d \<and>
         stored d' = stored d \<and>
         getSeriesCount d' = getSeriesCount d \<and>
         getDataPointCount nm' u' d' = getDataPointCount nm' u' d"
proof -
  have inv: "store_inv d" unfolding assms(1) by (rule reachable_store)
  from assms(2) obtain q where q: "is_analysis q" "d' = call toFixed1 q d"
  proof (elim disjE)
    assume "d' = snd (detectAnomalies d)"
    then show thesis by (intro that [of DetectAnomalies]) simp_all
  next
    assume "d' = snd (detectRegressions toFixed1 now d)"
    then show thesis by (intro that [of "DetectRegressions now"]) simp_all
  next
    assume "d' = snd (analyzeTrend nm u d)"
    then show thesis by (intro that [of "AnalyzeTrend nm u"]) simp_all
  qed
  from analysis_call_store [OF inv q(1), of toFixed1] show ?thesis
    by (simp add: q(2) getSeriesCount_stored getDataPointCount_stored)
qed

lemma stepped_detector_eval:
  "stepped_detector v =
     \<lparr>config = \<lparr>windowSize = 10, zScoreThreshold = 2, minSamples = 5,
         regressionPercentThreshold = 1 / 5, customThresholds = None\<rparr>,
      series = [(''LCP'', 0)],
      arrays = [createPoints ''LCP'' [998, 998, 1000, 1002, 1002, v, v, v, v, v] 0]\<rparr>"
  by (simp add: stepped_detector_def createPoints_def example_point_def test_config_def
        newDetector_def DEFAULT_CONFIG_def addDataPoint_def key_def map_has_def new_array_def
        array_slice_from_def array_slice_def Let_def)

lemma stepped_detector_calls:
  "stepped_detector v =
     calls f [AddDataPoints (createPoints ''LCP'' [998, 998, 1000, 1002, 1002, v, v, v, v, v] 0)]
       (newDetector test_config)"
  by (simp add: calls_def stepped_detector_def)


theorem analyses_keep_store_witness:
  "stored (snd (detectAnomalies (stepped_detector 1500))) =
     [(''LCP'', createPoints ''LCP'' [998, 998, 1000, 1002, 1002, 1500, 1500, 1500, 1500, 1500] 0)] \<and>
   stored (snd (detectRegressions (\<lambda>x. []) 7 (stepped_detector 1500))) =
     [(''LCP'', createPoints ''LCP'' [998, 998, 1000, 1002, 1002, 1500, 1500, 1500, 1500, 1500] 0)] \<and>
   getDataPointCount ''LCP'' None (snd (analyzeTrend ''LCP'' None (stepped_detector 1500))) = 10"
proof -
  have s: "stored (stepped_detector 1500) =
     [(''LCP'', createPoints ''LCP'' [998, 998, 1000, 1002, 1002, 1500, 1500, 1500, 1500, 1500] 0)]"
    by (simp add: stepped_detector_eval stored_def contents_def)
  have n: "getDataPointCount ''LCP'' None (stepped_detector 1500) = 10"
    by (simp add: stepped_detector_eval getDataPointCount_def key_def createPoints_def)
  note r = stepped_detector_calls [of 1500 "\<lambda>x. []"]
  from analyses_keep_store [OF r, of "snd (detectAnomalies (stepped_detector 1500))" 7 "''LCP''" None]
  have 1: "stored (snd (detectAnomalies (stepped_detector 1500))) = stored (stepped_detector 1500)"
    by blast
  from analyses_keep_store [OF r,
      of "snd (detectRegressions (\<lambda>x. []) 7 (stepped_detector 1500))" 7 "''LCP''" None]
  have 2: "stored (snd (detectRegressions (\<lambda>x. []) 7 (stepped_detector 1500))) =
      stored (stepped_detector 1500)"
    by blast
  from analyses_keep_store [OF r,
      of "snd (analyzeTrend ''LCP'' None (stepped_detector 1500))" 7 "''LCP''" None "''LCP''" None]
  have 3: "getDataPointCount ''LCP'' None (snd (analyzeTrend ''LCP'' None (stepped_detector 1500))) =
      getDataPointCount ''LCP'' None (stepped_detector 1500)"
    by blast
  from 1 2 3 show ?thesis by (simp only: s n simp_thms)
qed

lemma regressionAlert_clock:
  "regressionAlert cfg f now' k sp =
     map_option (\<lambda>a. a\<lparr>detectedAt := now'\<rparr>) (regressionAlert cfg f now k sp)"
  by (simp add: regressionAlert_def Let_def)

lemma regressions_of_clock:
  "regressions_of cfg f now' cs =
     map (\<lambda>a. a\<lparr>detectedAt := now'\<rparr>) (regressions_of cfg f now cs)"
proof (induction cs)
  case Nil
  show ?case by (simp add: regressions_of_def List.map_filter_simps)
next
  case (Cons e cs)
  obtain k points where e: "e = (k, points)" by (cases e)
  have "series_regression cfg f now' k points =
      map_option (\<lambda>a. a\<lparr>detectedAt := now'\<rparr>) (series_regression cfg f now k points)"
    using regressionAlert_clock [of cfg f now' k _ now]
    by (simp add: series_regression_def)
  with Cons show ?case
    by (cases "series_regression cfg f now k points")
       (simp_all add: regressions_of_def List.map_filter_simps e)
qed

lemma regressionAlert_detectedAt:
  "regressionAlert cfg f now k sp = Some a \<Longrightarrow> detectedAt a = now"
  by (auto simp: regressionAlert_def Let_def split: if_splits)

lemma regressions_of_member:
  "a \<in> set (regressions_of cfg f now cs) \<longleftrightarrow>
     (\<exists>(k, points) \<in> set cs. series_regression cfg f now k points = Some a)"
proof (induction cs)
  case Nil
  show ?case by (simp add: regressions_of_def List.map_filter_simps)
next
  case (Cons e cs)
  obtain k points where e: "e = (k, points)" by (cases e)
  from Cons show ?case
    by (cases "series_regression cfg f now k points")
       (auto simp: regressions_of_def List.map_filter_simps e)
qed

lemma regressions_of_detectedAt:
  "a \<in> set (regressions_of cfg f now cs) \<Longrightarrow> detectedAt a = now"
  by (auto simp: regressions_of_member series_regression_def
      dest: regressionAlert_detectedAt split: if_splits)

lemma analysis_calls_store:
  "store_inv d \<Longrightarrow> list_all is_analysis qs \<Longrightarrow>
   store_inv (calls f qs d) \<and> config (calls f qs d) = config d \<and>
   stored (calls f qs d) = stored d"
proof (induction qs arbitrary: d)
  case Nil
  then show ?case by (simp add: calls_def)
next
  case (Cons q qs)
  from Cons.prems have q: "is_analysis q" and qs: "list_all is_analysis qs" by simp_all
  from analysis_call_store [OF Cons.prems(1) q, of f] Cons.IH [of "call f q d"] qs
  show ?case by (simp add: calls_def)
qed

lemma analysis_results:
  assumes "store_inv d"
  shows "fst (detectAnomalies d) = anomalies_of (config d) (stored d) []"
    and "fst (detectRegressions f now d) = regressions_of (config d) f now (stored d)"
    and "fst (analyzeTrend nm u d) = trend_of (config d) (stored d) (key nm u)"
proof -
  from assms have v: "addrs_valid (series d) (arrays d)" by (simp add: store_inv_def)
  show "fst (detectAnomalies d) = anomalies_of (config d) (stored d) []"
    using detectAnomalies_valid [OF v] by auto
  show "fst (detectRegressions f now d) = regressions_of (config d) f now (stored d)"
    using detectRegressions_valid [OF v, of f now] by auto
  show "fst (analyzeTrend nm u d) = trend_of (config d) (stored d) (key nm u)"
    using analyzeTrend_valid [OF v, of nm u] by auto
qed

lemma stepped_detector_inv: "store_inv (stepped_detector v)"
  unfolding stepped_detector_calls [of v "\<lambda>x. []"] by (rule reachable_store)

lemma stepped_detector_regressions:
  "fst (detectRegressions (\<lambda>x. []) now (stepped_detector 1500)) =
     [\<lparr>r_metric = ''LCP'', r_url = None, previousValue = 1000, currentValue = 1500,
       absoluteChange = 500, percentageChange = 1 / 2, r_zScore = 250, severity = Warning,
       detectedAt = now, r_windowSize = 5,
       message = alertMessage (\<lambda>x. []) ''LCP'' None (1 / 2) 1000 1500\<rparr>]"
  by (simp add: analysis_results [OF stepped_detector_inv])
     (simp add: stepped_detector_eval stored_def contents_def createPoints_def example_point_def
        regressions_of_def List.map_filter_simps series_regression_def regressionAlert_def
        effectiveWindow_def currentWindow_def previousWindow_def array_slice_from_def
        array_slice_def mean_def stdDev_def variance_def zScore_def index_opt_def Let_def)

text \<open>
  C3, as amended. Take any state of the detector and make any number of analysis calls
  (\<open>detectAnomalies\<close>, \<open>detectRegressions\<close>, \<open>analyzeTrend\<close>, in any order), with no
  \<open>addDataPoint\<close>, \<open>addDataPoints\<close> or \<open>clear\<close> among them. Then \<open>detectAnomalies\<close> and
  \<open>analyzeTrend\<close> return what they returned before those calls, and \<open>detectRegressions\<close>
  returns the same alerts in every field but \<open>detectedAt\<close>, which is the reading of the clock
  at the call: the alerts are identical when the clock reads the same.
\<close>

theorem analyses_repeatable:
  assumes "d = calls toFixed1 cs (newDetector c)"
    and "list_all is_analysis qs"
    and "d' = calls toFixed1 qs d"
  shows "fst (detectAnomalies d') = fst (detectAnomalies d) \<and>
         fst (analyzeTrend nm u d') = fst (analyzeTrend nm u d) \<and>
         fst (detectRegressions toFixed1 now d') = fst (detectRegressions toFixed1 now d) \<and>
         fst (detectRegressions toFixed1 now' d') =
           map (\<lambda>a. a\<lparr>detectedAt := now'\<rparr>) (fst (detectRegressions toFixed1 now d))"
proof -
  have inv: "store_inv d" unfolding assms(1) by (rule reachable_store)
  from analysis_calls_store [OF inv assms(2), of toFixed1]
  have inv': "store_inv d'" and same: "config d' = config d" "stored d' = stored d"
    by (simp_all add: assms(3))
  show ?thesis
    using regressions_of_clock [of "config d" toFixed1 now' "stored d" now]
    by (simp add: analysis_results [OF inv] analysis_results [OF inv'] same)
qed


theorem analyses_repeatable_witness:
  "list_all is_analysis [DetectRegressions 7, DetectAnomalies, AnalyzeTrend ''LCP'' None] \<and>
   fst (detectRegressions (\<lambda>x. []) 7
     (calls (\<lambda>x. []) [DetectRegressions 7, DetectAnomalies, AnalyzeTrend ''LCP'' None]
        (stepped_detector 1500))) =
     [\<lparr>r_metric = ''LCP'', r_url = None, previousValue = 1000, currentValue = 1500,
       absoluteChange = 500, percentageChange = 1 / 2, r_zScore = 250, severity = Warning,
       detectedAt = 7, r_windowSize = 5,
       message = alertMessage (\<lambda>x. []) ''LCP'' None (1 / 2) 1000 1500\<rparr>] \<and>
   map detectedAt (fst (detectRegressions (\<lambda>x. []) 8
     (calls (\<lambda>x. []) [DetectRegressions 7, DetectAnomalies, AnalyzeTrend ''LCP'' None]
        (stepped_detector 1500)))) = [8]"
proof -
  have q: "list_all is_analysis [DetectRegressions 7, DetectAnomalies, AnalyzeTrend ''LCP'' None]"
    by simp
  from analyses_repeatable [OF stepped_detector_calls [of 1500 "\<lambda>x. []"] q refl,
      of "''LCP''" None 7 8]
  show ?thesis
    by (simp add: stepped_detector_regressions)
qed

text \<open>
  C3 as stated asks for every field of every alert to be equal. Two calls of
  \<open>detectRegressions\<close> on the same, untouched store, the first with the clock at 7 and the
  second with the clock at 8, return alerts that differ in \<open>detectedAt\<close>.
\<close>

theorem detectRegressions_clock_counterexample:
  "map detectedAt (fst (detectRegressions (\<lambda>x. []) 7 (stepped_detector 1500))) = [7] \<and>
   map detectedAt (fst (detectRegressions (\<lambda>x. []) 8
      (snd (detectRegressions (\<lambda>x. []) 7 (stepped_detector 1500))))) = [8] \<and>
   fst (detectRegressions (\<lambda>x. []) 8 (snd (detectRegressions (\<lambda>x. []) 7 (stepped_detector 1500))))
     \<noteq> fst (detectRegressions (\<lambda>x. []) 7 (stepped_detector 1500))"
proof -
  let ?d = "stepped_detector 1500"
  let ?d' = "snd (detectRegressions (\<lambda>x. []) 7 ?d)"
  have "is_analysis (DetectRegressions 7)" by simp
  from analysis_call_store [OF stepped_detector_inv [of 1500] this, of "\<lambda>x. []"]
  have inv': "store_inv ?d'" and same: "config ?d' = config ?d" "stored ?d' = stored ?d"
    by simp_all
  have "fst (detectRegressions (\<lambda>x. []) 8 ?d') = fst (detectRegressions (\<lambda>x. []) 8 ?d)"
    by (simp add: analysis_results [OF inv'] analysis_results [OF stepped_detector_inv] same)
  then show ?thesis
    by (simp add: stepped_detector_regressions)
qed

section \<open>Anomalies\<close>

lemma anomalyResult_fields:
  assumes "anomalyResult cfg k sp = Inr (Some r)"
  shows "isAnomaly r = (\<bar>a_zScore r\<bar> > zScoreThreshold cfg) \<and>
         a_direction r =
           (if a_zScore r > zScoreThreshold cfg then Up
            else if a_zScore r < - zScoreThreshold cfg then Down else NoDirection)"
  using assms
  by (auto simp: anomalyResult_def Let_def split: if_splits option.splits)

lemma anomalyCallback_results:
  assumes "anomalyCallback cfg k pa results h = (Inr results', h')" and "r \<in> set results'"
  shows "r \<in> set results \<or> (\<exists>sp. anomalyResult cfg k sp = Inr (Some r))"
  using assms
  by (auto simp: anomalyCallback_def Let_def split: if_splits prod.splits sum.splits option.splits)

lemma anomalies_forEach_results:
  "anomalies_forEach cfg m results h = (Inr rs, h') \<Longrightarrow> r \<in> set rs \<Longrightarrow>
   r \<in> set results \<or> (\<exists>k sp. anomalyResult cfg k sp = Inr (Some r))"
proof (induction m arbitrary: results h)
  case Nil
  then show ?case by simp
next
  case (Cons e m)
  obtain k pa where e: "e = (k, pa)" by (cases e)
  from Cons.prems(1) obtain results1 h1 where
    cb: "anomalyCallback cfg k pa results h = (Inr results1, h1)" and
    rest: "anomalies_forEach cfg m results1 h1 = (Inr rs, h')"
    by (auto simp: e split: prod.splits sum.splits)
  from Cons.IH [OF rest Cons.prems(2)] anomalyCallback_results [OF cb]
  show ?case by blast
qed

text \<open>
  C5, as amended. Every result of \<open>detectAnomalies\<close> has \<open>isAnomaly = (|zScore| >
  zScoreThreshold)\<close>; its direction is \<open>up\<close> iff \<open>zScore > zScoreThreshold\<close>, \<open>down\<close> iff
  \<open>zScore < -zScoreThreshold\<close> and not \<open>zScore > zScoreThreshold\<close>, and \<open>none\<close> otherwise. When
  the configured threshold is not negative, \<open>down\<close> is simply \<open>zScore < -zScoreThreshold\<close>.
  For every state and configuration, no result has \<open>isAnomaly = true\<close> with direction
  \<open>none\<close>.
\<close>

theorem anomaly_direction_fields:
  assumes "fst (detectAnomalies d) = Inr results" and "r \<in> set results"
  shows "isAnomaly r = (\<bar>a_zScore r\<bar> > zScoreThreshold (config d)) \<and>
         (a_direction r = Up \<longleftrightarrow> a_zScore r > zScoreThreshold (config d)) \<and>
         (a_direction r = Down \<longleftrightarrow>
            a_zScore r < - zScoreThreshold (config d) \<and> \<not> a_zScore r > zScoreThreshold (config d)) \<and>
         (a_direction r = NoDirection \<longleftrightarrow>
            \<not> a_zScore r > zScoreThreshold (config d) \<and>
            \<not> a_zScore r < - zScoreThreshold (config d)) \<and>
         (0 \<le> zScoreThreshold (config d) \<longrightarrow>
            (a_direction r = Down \<longleftrightarrow> a_zScore r < - zScoreThreshold (config d))) \<and>
         \<not> (isAnomaly r \<and> a_direction r = NoDirection)"
proof -
  obtain h' where "anomalies_forEach (config d) (series d) [] (arrays d) = (Inr results, h')"
    using assms(1) by (auto simp: detectAnomalies_def split: prod.splits)
  from anomalies_forEach_results [OF this assms(2)]
  obtain k sp where "anomalyResult (config d) k sp = Inr (Some r)"
    by auto
  from anomalyResult_fields [OF this] show ?thesis
    by (auto split: if_splits)
qed

lemma spike_eval:
  "fst (detectAnomalies (example_detector test_config [998, 998, 1000, 1002, 1002, 1500])) =
     Inr [\<lparr>a_metric = ''LCP'', a_value = 1500, a_timestamp = 5000, a_zScore = 250,
           isAnomaly = True, a_direction = Up\<rparr>]"
  by (simp add: example_detector_def createPoints_def example_point_def test_config_def
        newDetector_def DEFAULT_CONFIG_def addDataPoint_def key_def map_has_def new_array_def
        array_slice_from_def array_slice_def Let_def detectAnomalies_def anomalyCallback_def
        sorted_copy_def anomalyResult_def mean_def stdDev_def variance_def zScore_def)

theorem anomaly_direction_fields_witness:
  "fst (detectAnomalies (example_detector test_config [998, 998, 1000, 1002, 1002, 1500])) =
     Inr [\<lparr>a_metric = ''LCP'', a_value = 1500, a_timestamp = 5000, a_zScore = 250,
           isAnomaly = True, a_direction = Up\<rparr>] \<and>
   zScoreThreshold (config (example_detector test_config [998, 998, 1000, 1002, 1002, 1500])) < 250"
  using anomaly_direction_fields [OF spike_eval, of
      "\<lparr>a_metric = ''LCP'', a_value = 1500, a_timestamp = 5000, a_zScore = 250,
           isAnomaly = True, a_direction = Up\<rparr>"]
  by (simp add: spike_eval)

text \<open>
  C5 as stated says \<open>down\<close> iff \<open>zScore < -zScoreThreshold\<close> for every configuration. The
  configuration is not validated: with \<open>zScoreThreshold = -1\<close> and six equal values the
  z-score is 0, which is below \<open>-zScoreThreshold = 1\<close>, and the direction is \<open>up\<close>, since the
  test \<open>z > zScoreThreshold\<close> comes first.
\<close>

theorem anomaly_down_counterexample:
  "fst (detectAnomalies (example_detector (test_config\<lparr>o_zScoreThreshold := Some (- 1)\<rparr>)
      [1000, 1000, 1000, 1000, 1000, 1000])) =
     Inr [\<lparr>a_metric = ''LCP'', a_value = 1000, a_timestamp = 5000, a_zScore = 0,
           isAnomaly = True, a_direction = Up\<rparr>] \<and>
   a_zScore \<lparr>a_metric = ''LCP'', a_value = 1000, a_timestamp = 5000, a_zScore = 0,
           isAnomaly = True, a_direction = Up\<rparr>
     < - zScoreThreshold (config (example_detector (test_config\<lparr>o_zScoreThreshold := Some (- 1)\<rparr>)
          [1000, 1000, 1000, 1000, 1000, 1000])) \<and>
   a_direction \<lparr>a_metric = ''LCP'', a_value = 1000, a_timestamp = 5000, a_zScore = 0,
           isAnomaly = True, a_direction = Up\<rparr> \<noteq> Down"
  by (simp add: example_detector_def createPoints_def example_point_def test_config_def
        newDetector_def DEFAULT_CONFIG_def addDataPoint_def key_def map_has_def new_array_def
        array_slice_from_def array_slice_def Let_def detectAnomalies_def anomalyCallback_def
        sorted_copy_def anomalyResult_def mean_def stdDev_def variance_def zScore_def)

section \<open>Regressions\<close>

text \<open>The alert of one series, with the means, the change and the z-score named.\<close>

lemma regressionAlert_unfold:
  fixes cfg f now k sp
  defines "prev \<equiv> previousWindow cfg (map val sp)"
    and "pm \<equiv> mean (previousWindow cfg (map val sp))"
    and "cm \<equiv> mean (currentWindow cfg (map val sp))"
  defines "pct \<equiv> (cm - pm) / pm"
    and "z \<equiv> zScore cm pm (stdDev prev)"
    and "metricName \<equiv> (case split CHR ''|'' k of [] \<Rightarrow> [] | m # _ \<Rightarrow> m)"
    and "u \<equiv> (if CHR ''|'' \<in> set k then index_opt (split CHR ''|'' k) 1 else None)"
  shows "regressionAlert cfg f now k sp =
     (if int (length prev) < minSamples cfg then None
      else if pm = 0 then None
      else if pct < regressionPercentThreshold cfg then None
      else if \<bar>z\<bar> < 1.5 then None
      else Some
         \<lparr>r_metric = metricName, r_url = u, previousValue = pm, currentValue = cm,
          absoluteChange = cm - pm, percentageChange = pct, r_zScore = z,
          severity = (if pct > 0.5 then Critical else if pct > 0.3 then Warning
                      else getSeverity metricName cm None),
          detectedAt = now, r_windowSize = effectiveWindow cfg (map val sp),
          message = alertMessage f metricName u pct pm cm\<rparr>)"
  unfolding regressionAlert_def Let_def prev_def pm_def cm_def pct_def z_def metricName_def u_def
  by (rule refl)

lemma regressionAlert_fields:
  assumes "regressionAlert cfg f now k sp = Some a"
  shows "previousValue a = mean (previousWindow cfg (map val sp)) \<and>
         currentValue a = mean (currentWindow cfg (map val sp)) \<and>
         previousValue a \<noteq> 0 \<and>
         absoluteChange a = currentValue a - previousValue a \<and>
         percentageChange a = (currentValue a - previousValue a) / previousValue a \<and>
         regressionPercentThreshold cfg \<le> percentageChange a \<and>
         r_zScore a = zScore (currentValue a) (previousValue a)
                        (stdDev (previousWindow cfg (map val sp))) \<and>
         1.5 \<le> \<bar>r_zScore a\<bar> \<and>
         minSamples cfg \<le> int (length (previousWindow cfg (map val sp))) \<and>
         r_windowSize a = effectiveWindow cfg (map val sp) \<and>
         severity a =
           (if percentageChange a > 0.5 then Critical
            else if percentageChange a > 0.3 then Warning
            else getSeverity (r_metric a) (currentValue a) None)"
proof -
  define pm where "pm = mean (previousWindow cfg (map val sp))"
  define cm where "cm = mean (currentWindow cfg (map val sp))"
  define pct where "pct = (cm - pm) / pm"
  define z where "z = zScore cm pm (stdDev (previousWindow cfg (map val sp)))"
  note eq = regressionAlert_unfold [of cfg f now k sp, folded pm_def cm_def, folded pct_def z_def]
  from assms [unfolded eq] have
    g: "\<not> int (length (previousWindow cfg (map val sp))) < minSamples cfg" "pm \<noteq> 0"
       "\<not> pct < regressionPercentThreshold cfg" "\<not> \<bar>z\<bar> < 1.5"
    by (simp_all split: if_splits)
  from assms [unfolded eq] g have
    a: "previousValue a = pm" "currentValue a = cm" "absoluteChange a = cm - pm"
       "percentageChange a = pct" "r_zScore a = z"
       "r_windowSize a = effectiveWindow cfg (map val sp)"
       "severity a = (if pct > 0.5 then Critical else if pct > 0.3 then Warning
                      else getSeverity (r_metric a) cm None)"
    by auto
  show ?thesis
    unfolding a using g
    by (simp only: pm_def [symmetric] cm_def [symmetric] pct_def [symmetric] z_def [symmetric]
          simp_thms not_less)
qed

lemma regressionAlert_config:
  assumes "windowSize cfg' = windowSize cfg" and "minSamples cfg' = minSamples cfg"
    and "regressionPercentThreshold cfg' = regressionPercentThreshold cfg"
  shows "regressionAlert cfg' f now k sp = regressionAlert cfg f now k sp"
proof -
  have w: "effectiveWindow cfg' = effectiveWindow cfg" "currentWindow cfg' = currentWindow cfg"
    "previousWindow cfg' = previousWindow cfg"
    by (simp_all add: fun_eq_iff effectiveWindow_def currentWindow_def previousWindow_def assms)
  show ?thesis
    unfolding regressionAlert_def w assms by (rule refl)
qed

subsection \<open>Rounding to a double\<close>

lemma round_even_int: "round_even (of_int n) = n"
  by (simp add: round_even_def)

lemma round64_zero: "round64 0 = Fin 0"
  by (simp add: round64_def)

lemma round64_not_NaN: "round64 x \<noteq> NaN"
  by (simp add: round64_def Let_def)

text \<open>A number with a significand of 53 bits and an exponent in range is a double.\<close>

lemma round64_exact:
  fixes m q :: int
  assumes x: "x = of_int m * 2 powi q"
    and m: "2 ^ 52 \<le> \<bar>m\<bar>" "\<bar>m\<bar> < 2 ^ 53"
    and q: "- 1074 \<le> q" "q \<le> 971"
  shows "round64 x = Fin x"
proof -
  have p: "(2 :: real) powi q > 0" by (simp add: power_int_def)
  have ax: "\<bar>x\<bar> = of_int \<bar>m\<bar> * 2 powi q"
    unfolding x using p by (simp add: abs_mult)
  from m have m': "(2 :: real) ^ 52 \<le> of_int \<bar>m\<bar>" "of_int \<bar>m\<bar> < (2 :: real) ^ 53"
    by (metis of_int_le_iff of_int_numeral of_int_power, metis of_int_less_iff of_int_numeral of_int_power)
  have lo: "(2 :: real) powi (52 + q) \<le> \<bar>x\<bar>"
    unfolding ax using m'(1) p by (simp add: power_int_add)
  have hi: "\<bar>x\<bar> < (2 :: real) powi (52 + q + 1)"
  proof -
    have "(2 :: real) powi (52 + q + 1) = 2 ^ 53 * 2 powi q"
      by (simp add: power_int_add)
    then show ?thesis unfolding ax using m'(2) p by simp
  qed
  have pos: "0 < \<bar>x\<bar>" using lo power_int_def [of "2 :: real" "52 + q"]
    by (smt (verit) zero_less_power_int)
  have "(2 :: real) powr real_of_int (52 + q) \<le> \<bar>x\<bar>"
    and "\<bar>x\<bar> < (2 :: real) powr real_of_int (52 + q + 1)"
    using lo hi by (simp_all only: powr_real_of_int' [of "2 :: real", simplified])
  then have fl: "\<lfloor>log 2 \<bar>x\<bar>\<rfloor> = 52 + q"
    by (subst floor_log_eq_powr_iff [OF pos]) simp_all
  have q': "max (\<lfloor>log 2 \<bar>x\<bar>\<rfloor> - 52) (- 1074) = q"
    unfolding fl using q by simp
  have d: "x / 2 powi q = of_int m"
    unfolding x using p by simp
  have y: "of_int (round_even (x / 2 powi q)) * 2 powi q = x"
    unfolding d round_even_int by (simp add: x)
  have "(2 :: real) powi (52 + q + 1) \<le> 2 powi 1024"
    by (rule power_int_increasing) (use q in simp_all)
  with hi have b: "\<not> \<bar>x\<bar> \<ge> 2 ^ 1024" by simp
  from pos have nz: "x \<noteq> 0" by simp
  show ?thesis
    unfolding round64_def Let_def q' y using nz b by (simp only: if_False)
qed

lemma round64_4000: "round64 4000 = Fin 4000"
  by (rule round64_exact [where m = 8796093022208000 and q = "- 41"]) (simp_all add: power_int_def power_one_over)


text \<open>The rounding of a number of which the binary exponent is known.\<close>

lemma round64_eval:
  fixes e :: int
  assumes lo: "2 powi e \<le> \<bar>x\<bar>" and hi: "\<bar>x\<bar> < 2 powi (e + 1)" and e: "- 1022 \<le> e"
  shows "round64 x =
     (let y = of_int (round_even (x / 2 powi (e - 52))) * 2 powi (e - 52)
      in if \<bar>y\<bar> \<ge> 2 ^ 1024 then (if x > 0 then PosInfinity else NegInfinity) else Fin y)"
proof -
  have pos: "0 < \<bar>x\<bar>" using lo by (smt (verit) zero_less_power_int)
  have "(2 :: real) powr real_of_int e \<le> \<bar>x\<bar>"
    and "\<bar>x\<bar> < (2 :: real) powr real_of_int (e + 1)"
    using lo hi by (simp_all only: powr_real_of_int' [of "2 :: real", simplified])
  then have fl: "\<lfloor>log 2 \<bar>x\<bar>\<rfloor> = e"
    by (subst floor_log_eq_powr_iff [OF pos]) simp_all
  have q: "max (\<lfloor>log 2 \<bar>x\<bar>\<rfloor> - 52) (- 1074) = e - 52"
    unfolding fl using e by simp
  from pos have nz: "x \<noteq> 0" by simp
  show ?thesis
    unfolding round64_def q using nz by (simp only: if_False Let_def)
qed

text \<open>An integer of at most 53 bits is a double.\<close>

lemma powi2_mult: "(2 :: real) powi a * 2 powi b = 2 powi (a + b)"
  by (simp add: power_int_add)

lemma round64_int:
  assumes "\<bar>n\<bar> < 2 ^ 53"
  shows "round64 (of_int n) = Fin (of_int n)"
proof (cases "n = 0")
  case True
  then show ?thesis by (simp add: round64_def)
next
  case False
  define x :: real where "x = of_int \<bar>n\<bar>"
  from False have "1 \<le> \<bar>n\<bar>" by simp
  then have x1: "1 \<le> x" unfolding x_def by (simp only: of_int_1_le_iff)
  from assms have x2: "x < 2 ^ 53" unfolding x_def
    by (metis of_int_less_iff of_int_numeral of_int_power)
  define e where "e = \<lfloor>log 2 x\<rfloor>"
  have xpos: "0 < x" using x1 by simp
  from e_def have b: "2 powr real_of_int e \<le> x" "x < 2 powr real_of_int (e + 1)"
    using floor_log_eq_powr_iff [of x 2 e] xpos by simp_all
  have e0: "0 \<le> e" unfolding e_def using x1 by simp
  have "log 2 x < 53"
    using x2 xpos by (simp add: log_less_iff powr_realpow [symmetric])
  then have e52: "e \<le> 52" unfolding e_def by (simp add: floor_le_iff)
  from b have b': "2 powi e \<le> x" "x < 2 powi (e + 1)"
    by (simp_all only: powr_real_of_int' [of "2 :: real", simplified])
  define k where "k = nat (52 - e)"
  define m where "m = n * 2 ^ k"
  have ke: "int k = 52 - e" unfolding k_def using e52 by simp
  have p: "(2 :: real) powi (e - 52) * 2 ^ k = 1"
  proof -
    have "(2 :: real) ^ k = 2 powi (52 - e)" using ke by (metis power_int_of_nat)
    then show ?thesis by (simp only: powi2_mult) simp
  qed
  have 1: "of_int n = of_int m * (2 :: real) powi (e - 52)"
    unfolding m_def using p by (simp add: mult.assoc mult.commute [of "2 ^ k"])
  have am: "real_of_int \<bar>m\<bar> = x * 2 ^ k"
    unfolding m_def x_def by (simp add: abs_mult)
  have "(2 :: real) powi e * 2 ^ k = 2 ^ 52"
  proof -
    have "(2 :: real) ^ k = 2 powi (52 - e)" using ke by (metis power_int_of_nat)
    then show ?thesis by (simp only: powi2_mult) simp
  qed
  with b'(1) have "(2 :: real) ^ 52 \<le> x * 2 ^ k"
    by (metis mult_right_mono zero_le_numeral zero_le_power)
  then have 2: "2 ^ 52 \<le> \<bar>m\<bar>"
    unfolding am [symmetric] by (metis of_int_le_iff of_int_numeral of_int_power)
  have "(2 :: real) powi (e + 1) * 2 ^ k = 2 ^ 53"
  proof -
    have "(2 :: real) ^ k = 2 powi (52 - e)" using ke by (metis power_int_of_nat)
    then show ?thesis by (simp only: powi2_mult) simp
  qed
  with b'(2) have "x * 2 ^ k < (2 :: real) ^ 53"
    by (metis mult_strict_right_mono zero_less_numeral zero_less_power)
  then have 3: "\<bar>m\<bar> < 2 ^ 53"
    unfolding am [symmetric] by (metis of_int_less_iff of_int_numeral of_int_power)
  show ?thesis
    by (rule round64_exact [OF 1 2 3]) (use e0 e52 in simp_all)
qed

lemma round64_numeral:
  "numeral k < (2 ^ 53 :: int) \<Longrightarrow> round64 (numeral k) = Fin (numeral k)"
  "numeral k < (2 ^ 53 :: int) \<Longrightarrow> round64 (- numeral k) = Fin (- numeral k)"
  "round64 1 = Fin 1"
  using round64_int [of "numeral k"] round64_int [of "- numeral k"] round64_int [of 1]
  by simp_all

text \<open>1/2 is a double; 1/5 and 3/10 are not, and are rounded.\<close>

lemma round64_half: "round64 (1 / 2) = Fin (1 / 2)"
  by (rule round64_exact [where m = "2 ^ 52" and q = "- 53"]) (simp_all add: power_int_def power_one_over)

lemma round64_fifth: "round64 (1 / 5) = Fin (7205759403792794 / 2 ^ 55)"
  by (subst round64_eval [where e = "- 3"])
     (simp_all add: power_int_def power_one_over round_even_def Let_def)

lemma round64_three_tenths: "round64 (3 / 10) = Fin (5404319552844595 / 2 ^ 54)"
  by (subst round64_eval [where e = "- 2"])
     (simp_all add: power_int_def power_one_over round_even_def Let_def)

text \<open>A power of two from \<open>2 ^ 52\<close> on is a double up to \<open>2 ^ 1023\<close>, and overflows from
  \<open>2 ^ 1024\<close> on.\<close>

lemma round64_power:
  assumes "52 \<le> n"
  shows "round64 (2 ^ n) = (if 1024 \<le> n then PosInfinity else Fin (2 ^ n))"
proof -
  have q: "max (\<lfloor>log 2 \<bar>2 ^ n :: real\<bar>\<rfloor> - 52) (- 1074) = int (n - 52)"
    using assms by simp
  have p: "(2 :: real) powi int (n - 52) = 2 ^ (n - 52)"
    by simp
  have d: "(2 ^ n :: real) / 2 ^ (n - 52) = of_int (2 ^ 52)"
    using assms by (simp add: power_diff)
  have y: "of_int (round_even ((2 ^ n :: real) / 2 ^ (n - 52))) * 2 ^ (n - 52) = (2 ^ n :: real)"
    unfolding d round_even_int using assms by (simp add: power_diff)
  have c: "\<bar>2 ^ n :: real\<bar> \<ge> 2 ^ m \<longleftrightarrow> m \<le> n" for m
    by simp
  have nz: "(2 ^ n :: real) \<noteq> 0" "(2 ^ n :: real) > 0" by simp_all
  show ?thesis
    unfolding round64_def Let_def q p y c using nz by (simp only: if_False if_True)
qed

lemma round64_huge: "round64 huge = Fin huge"
  unfolding huge_def by (subst round64_power) simp_all

lemma round64_twice_huge: "round64 (huge + huge) = PosInfinity"
proof -
  have "huge + huge = (2 ^ 1024 :: real)"
    unfolding huge_def by simp
  then show ?thesis
    by (simp only: round64_power) simp
qed


lemma round64_double_huge: "round64 (2 * huge) = PosInfinity"
  using round64_twice_huge by simp

subsection \<open>Ten points of the largest power of two\<close>

text \<open>The sum of two of them overflows, so each window has mean Infinity; the standard
  deviation of the previous window is Infinity too.\<close>

lemma lt64_NaN: "lt64 a NaN = False" "lt64 NaN b = False"
  by (cases a) simp_all

lemma overflow_detector_eval:
  "overflow_detector =
     \<lparr>config = \<lparr>windowSize = 10, zScoreThreshold = 2, minSamples = 5,
         regressionPercentThreshold = 1 / 5, customThresholds = None\<rparr>,
      series = [(''LCP'', 0)],
      arrays = [createPoints ''LCP''
                  [huge, huge, huge, huge, huge, huge, huge, huge, huge, huge] 0]\<rparr>"
  by (simp add: overflow_detector_def example_detector_def createPoints_def example_point_def
        test_config_def newDetector_def DEFAULT_CONFIG_def addDataPoint_def key_def map_has_def
        new_array_def array_slice_from_def array_slice_def Let_def)

lemma mean64_overflow:
  "mean64 [Fin huge, Fin huge, Fin huge, Fin huge, Fin huge] = PosInfinity"
  by (simp add: mean64_def round64_huge round64_double_huge inf_of_sign_def)

lemma stdDev64_overflow:
  "stdDev64 [Fin huge, Fin huge, Fin huge, Fin huge, Fin huge] = PosInfinity"
  by (simp add: stdDev64_def variance64_def mean64_overflow sub64_def inf_of_sign_def)

lemma overflow_alert:
  "fst (detectRegressions64 f now overflow_detector) =
     [\<lparr>n_metric = ''LCP'', n_url = None, n_previousValue = PosInfinity,
       n_currentValue = PosInfinity, n_absoluteChange = NaN, n_percentageChange = NaN,
       n_zScore = NaN, n_severity = Critical, n_detectedAt = now, n_windowSize = 5,
       n_message = alertMessage64 f ''LCP'' None NaN PosInfinity PosInfinity\<rparr>]"
  by (simp add: overflow_detector_eval detectRegressions64_def regressionCallback64_def
        sorted_copy_def new_array_def createPoints_def example_point_def regressionAlert64_def
        effectiveWindow_def currentWindow_def previousWindow_def
        array_slice_from_def array_slice_def Let_def mean64_overflow stdDev64_overflow
        zScore64_def eq64_def sub64_def gt64_def getSeverity64_def lookupThresholds_def
        WEB_VITALS_THRESHOLDS_def inf_of_sign_def index_opt_def lt64_NaN round64_huge
        round64_4000)


subsection \<open>The alerts of detectRegressions on doubles\<close>

text \<open>As on exact numbers, the alerts are those of the stored series, in order.\<close>

lemma regressionCallback64_valid:
  assumes "pa < length h"
  shows "\<exists>ext. regressionCallback64 cfg f now k pa alerts h =
           (alerts @ (case series_regression64 cfg f now k (h ! pa) of
                        None \<Rightarrow> [] | Some a \<Rightarrow> [a]), h @ ext)"
proof (cases "int (length (h ! pa)) < minSamples cfg * 2")
  case True
  then show ?thesis
    by (intro exI [of _ "[]"]) (simp add: regressionCallback64_def series_regression64_def)
next
  case False
  with assms show ?thesis
    by (intro exI [of _ "[sort_key timestamp (h ! pa)]"])
       (simp add: regressionCallback64_def series_regression64_def sorted_copy_valid
          split: option.splits)
qed

lemma regressions_forEach64_valid:
  "addrs_valid m h \<Longrightarrow>
   \<exists>ext. regressions_forEach64 cfg f now m alerts h =
     (alerts @ regressions_of64 cfg f now (contents h m), h @ ext)"
proof (induction m arbitrary: alerts h)
  case Nil
  show ?case
    by (intro exI [of _ "[]"]) (simp add: contents_def regressions_of64_def List.map_filter_simps)
next
  case (Cons e m)
  obtain k pa where e: "e = (k, pa)" by (cases e)
  from Cons.prems e have pa: "pa < length h" and m: "addrs_valid m h"
    by (simp_all add: addrs_valid_def)
  define new where "new = (case series_regression64 cfg f now k (h ! pa) of
                        None \<Rightarrow> [] | Some a \<Rightarrow> [a])"
  obtain ext where cb: "regressionCallback64 cfg f now k pa alerts h = (alerts @ new, h @ ext)"
    using regressionCallback64_valid [OF pa] unfolding new_def by blast
  have c: "contents (h @ ext) m = contents h m"
    by (rule contents_append [OF m])
  have step: "regressions_of64 cfg f now (contents h ((k, pa) # m)) =
     new @ regressions_of64 cfg f now (contents h m)"
    by (simp add: contents_def regressions_of64_def List.map_filter_simps new_def
          split: option.splits)
  obtain ext' where ih: "regressions_forEach64 cfg f now m (alerts @ new) (h @ ext) =
     ((alerts @ new) @ regressions_of64 cfg f now (contents (h @ ext) m), (h @ ext) @ ext')"
    using Cons.IH [OF addrs_valid_append [OF m], of "alerts @ new" ext] by blast
  show ?case
    by (intro exI [of _ "ext @ ext'"]) (simp add: e cb ih c step)
qed

lemma detectRegressions64_results:
  assumes "store_inv d"
  shows "fst (detectRegressions64 f now d) = regressions_of64 (config d) f now (stored d)"
proof -
  from assms have v: "addrs_valid (series d) (arrays d)" by (simp add: store_inv_def)
  obtain ext where "regressions_forEach64 (config d) f now (series d) [] (arrays d) =
      ([] @ regressions_of64 (config d) f now (contents (arrays d) (series d)), arrays d @ ext)"
    using regressions_forEach64_valid [OF v] by blast
  then show ?thesis
    by (simp add: detectRegressions64_def stored_def)
qed

text \<open>The store a call of \<open>detectRegressions\<close> leaves does not depend on the arithmetic.\<close>

lemma regressions_forEach64_store:
  "snd (regressions_forEach64 cfg f now m alerts h) =
   snd (regressions_forEach cfg g now m alerts' h)"
proof (induction m arbitrary: alerts alerts' h)
  case Nil
  show ?case by simp
next
  case (Cons e m)
  obtain k pa where e: "e = (k, pa)" by (cases e)
  have s: "snd (regressionCallback64 cfg f now k pa alerts h) =
           snd (regressionCallback cfg g now k pa alerts' h)"
    by (simp add: regressionCallback64_def regressionCallback_def Let_def
          split: prod.splits option.splits)
  obtain a1 h1 where c1: "regressionCallback64 cfg f now k pa alerts h = (a1, h1)"
    by (cases "regressionCallback64 cfg f now k pa alerts h")
  obtain a2 h2 where c2: "regressionCallback cfg g now k pa alerts' h = (a2, h2)"
    by (cases "regressionCallback cfg g now k pa alerts' h")
  from s c1 c2 have "h1 = h2" by simp
  with Cons [where alerts = a1 and alerts' = a2 and h = h2] show ?case
    by (simp add: e c1 c2)
qed

lemma detectRegressions64_state:
  "snd (detectRegressions64 f now d) = snd (detectRegressions g now d)"
  using regressions_forEach64_store [of "config d" f now "series d" "[]" "arrays d" g "[]"]
  by (auto simp: detectRegressions64_def detectRegressions_def split: prod.splits)

lemma regressions_of64_member:
  "a \<in> set (regressions_of64 cfg f now cs) \<longleftrightarrow>
     (\<exists>(k, points) \<in> set cs. series_regression64 cfg f now k points = Some a)"
proof (induction cs)
  case Nil
  show ?case by (simp add: regressions_of64_def List.map_filter_simps)
next
  case (Cons e cs)
  obtain k points where e: "e = (k, points)" by (cases e)
  from Cons show ?case
    by (cases "series_regression64 cfg f now k points")
       (auto simp: regressions_of64_def List.map_filter_simps e)
qed

text \<open>The alert of one series, with the means, the change and the z-score named.\<close>

lemma regressionAlert64_unfold:
  fixes cfg f now k sp
  defines "prev \<equiv> previousWindow cfg (map (\<lambda>p. round64 (val p)) sp)"
    and "pm \<equiv> mean64 (previousWindow cfg (map (\<lambda>p. round64 (val p)) sp))"
    and "cm \<equiv> mean64 (currentWindow cfg (map (\<lambda>p. round64 (val p)) sp))"
  defines "pct \<equiv> div64 (sub64 cm pm) pm"
    and "z \<equiv> zScore64 cm pm (stdDev64 prev)"
    and "metricName \<equiv> (case split CHR ''|'' k of [] \<Rightarrow> [] | m # _ \<Rightarrow> m)"
    and "u \<equiv> (if CHR ''|'' \<in> set k then index_opt (split CHR ''|'' k) 1 else None)"
  shows "regressionAlert64 cfg f now k sp =
     (if int (length prev) < minSamples cfg then None
      else if eq64 pm (Fin 0) then None
      else if lt64 pct (round64 (regressionPercentThreshold cfg)) then None
      else if lt64 (abs64 z) (Fin 1.5) then None
      else Some
         \<lparr>n_metric = metricName, n_url = u, n_previousValue = pm, n_currentValue = cm,
          n_absoluteChange = sub64 cm pm, n_percentageChange = pct, n_zScore = z,
          n_severity = (if gt64 pct (Fin 0.5) then Critical
                        else if gt64 pct (round64 0.3) then Warning
                        else getSeverity64 metricName cm None),
          n_detectedAt = now,
          n_windowSize = effectiveWindow cfg (map (\<lambda>p. round64 (val p)) sp),
          n_message = alertMessage64 f metricName u pct pm cm\<rparr>)"
  unfolding regressionAlert64_def Let_def prev_def pm_def cm_def pct_def z_def metricName_def
    u_def
  by (rule refl)

lemma regressionAlert64_fields:
  assumes "regressionAlert64 cfg f now k sp = Some a"
  shows "n_previousValue a = mean64 (previousWindow cfg (map (\<lambda>p. round64 (val p)) sp)) \<and>
         n_currentValue a = mean64 (currentWindow cfg (map (\<lambda>p. round64 (val p)) sp)) \<and>
         \<not> eq64 (n_previousValue a) (Fin 0) \<and>
         n_absoluteChange a = sub64 (n_currentValue a) (n_previousValue a) \<and>
         n_percentageChange a = div64 (n_absoluteChange a) (n_previousValue a) \<and>
         \<not> lt64 (n_percentageChange a) (round64 (regressionPercentThreshold cfg)) \<and>
         n_zScore a = zScore64 (n_currentValue a) (n_previousValue a)
                        (stdDev64 (previousWindow cfg (map (\<lambda>p. round64 (val p)) sp))) \<and>
         \<not> lt64 (abs64 (n_zScore a)) (Fin 1.5)"
proof -
  define pm where "pm = mean64 (previousWindow cfg (map (\<lambda>p. round64 (val p)) sp))"
  define cm where "cm = mean64 (currentWindow cfg (map (\<lambda>p. round64 (val p)) sp))"
  define pct where "pct = div64 (sub64 cm pm) pm"
  define z where "z = zScore64 cm pm (stdDev64 (previousWindow cfg (map (\<lambda>p. round64 (val p)) sp)))"
  note eq = regressionAlert64_unfold [of cfg f now k sp, folded pm_def cm_def,
      folded pct_def z_def]
  from assms [unfolded eq] have
    g: "\<not> eq64 pm (Fin 0)" "\<not> lt64 pct (round64 (regressionPercentThreshold cfg))"
       "\<not> lt64 (abs64 z) (Fin 1.5)"
    by (simp_all split: if_splits)
  from assms [unfolded eq] g have
    a: "n_previousValue a = pm" "n_currentValue a = cm" "n_absoluteChange a = sub64 cm pm"
       "n_percentageChange a = pct" "n_zScore a = z"
    by (auto split: if_splits)
  show ?thesis
    unfolding a using g
    by (simp only: pm_def [symmetric] cm_def [symmetric] pct_def [symmetric] z_def [symmetric]
          simp_thms)
qed

lemma regressionAlert64_zero_mean:
  assumes "mean64 (previousWindow cfg (map (\<lambda>p. round64 (val p)) sp)) = Fin 0"
  shows "regressionAlert64 cfg f now k sp = None"
  unfolding regressionAlert64_unfold using assms by (simp add: eq64_def)

lemma regressionCallback64_none:
  assumes "pa < length h"
    and "regressionAlert64 cfg f now k (sort_key timestamp (h ! pa)) = None"
  shows "fst (regressionCallback64 cfg f now k pa alerts (h @ ext)) = alerts"
proof -
  from assms(1) have "pa < length (h @ ext)" by simp
  from regressionCallback64_valid [OF this, of cfg f now k alerts] assms
  show ?thesis
    by (auto simp: series_regression64_def nth_append)
qed


subsection \<open>The two gates\<close>

text \<open>The configured \<open>zScoreThreshold\<close> is not read: the constant 1.5 is fixed.\<close>

lemma regressionAlert64_config:
  assumes "windowSize cfg' = windowSize cfg" and "minSamples cfg' = minSamples cfg"
    and "regressionPercentThreshold cfg' = regressionPercentThreshold cfg"
  shows "regressionAlert64 cfg' f now k sp = regressionAlert64 cfg f now k sp"
proof -
  have w: "effectiveWindow cfg' = effectiveWindow cfg" "currentWindow cfg' = currentWindow cfg"
    "previousWindow cfg' = previousWindow cfg"
    by (simp_all add: fun_eq_iff effectiveWindow_def currentWindow_def previousWindow_def assms)
  show ?thesis
    unfolding regressionAlert64_def w assms by (rule refl)
qed

lemma regressionAlert64_zScoreThreshold:
  "regressionAlert64 (cfg\<lparr>zScoreThreshold := t\<rparr>) f now k sp = regressionAlert64 cfg f now k sp"
  by (rule regressionAlert64_config) simp_all

lemma not_lt64_ge64: "a \<noteq> NaN \<Longrightarrow> b \<noteq> NaN \<Longrightarrow> \<not> lt64 a b \<Longrightarrow> ge64 a b"
  by (cases a; cases b) (auto simp: ge64_def gt64_def eq64_def)

lemma abs64_NaN: "abs64 z = NaN \<longleftrightarrow> z = NaN"
  by (cases z) simp_all

lemma div64_not_NaN: "y \<noteq> 0 \<Longrightarrow> a \<noteq> NaN \<Longrightarrow> div64 a (Fin y) \<noteq> NaN"
  by (cases a) (simp_all add: round64_not_NaN inf_of_sign_def)

text \<open>When the two means and the standard deviation are finite, the values of an alert are
  not NaN, and the alert passes both gates.\<close>

lemma regressionAlert64_finite:
  assumes "regressionAlert64 cfg f now k sp = Some a"
    and "n_previousValue a = Fin p" and "n_currentValue a = Fin c"
    and "stdDev64 (previousWindow cfg (map (\<lambda>p. round64 (val p)) sp)) = Fin s"
  shows "ge64 (n_percentageChange a) (round64 (regressionPercentThreshold cfg)) \<and>
         ge64 (abs64 (n_zScore a)) (Fin 1.5)"
proof -
  from regressionAlert64_fields [OF assms(1)] have
    nz: "\<not> eq64 (n_previousValue a) (Fin 0)"
    and ab: "n_absoluteChange a = sub64 (n_currentValue a) (n_previousValue a)"
    and pc: "n_percentageChange a = div64 (n_absoluteChange a) (n_previousValue a)"
    and t1: "\<not> lt64 (n_percentageChange a) (round64 (regressionPercentThreshold cfg))"
    and zs: "n_zScore a = zScore64 (n_currentValue a) (n_previousValue a)
                        (stdDev64 (previousWindow cfg (map (\<lambda>p. round64 (val p)) sp)))"
    and t2: "\<not> lt64 (abs64 (n_zScore a)) (Fin 1.5)"
    by blast+
  from nz have p: "p \<noteq> 0" unfolding assms(2) by (simp add: eq64_def)
  have pct: "n_percentageChange a \<noteq> NaN"
    unfolding pc ab assms(2,3) using p by (simp add: sub64_def div64_not_NaN round64_not_NaN)
  have z: "n_zScore a \<noteq> NaN"
    unfolding zs assms(2,3,4)
    by (cases "s = 0") (simp_all add: zScore64_def eq64_def sub64_def div64_not_NaN round64_not_NaN)
  from t1 t2 pct z show ?thesis
    by (auto intro!: not_lt64_ge64 simp: abs64_NaN round64_not_NaN)
qed

text \<open>What holds of every alert: neither test of the source found its value too small,
  and a value that is not NaN passes the gate.\<close>

lemma regression_alert_tests64:
  assumes "d = calls g cs (newDetector c)"
    and "a \<in> set (fst (detectRegressions64 toFixed1 now d))"
  shows "\<not> lt64 (n_percentageChange a) (round64 (regressionPercentThreshold (config d))) \<and>
         \<not> lt64 (abs64 (n_zScore a)) (Fin 1.5) \<and>
         (n_percentageChange a \<noteq> NaN \<longrightarrow>
            ge64 (n_percentageChange a) (round64 (regressionPercentThreshold (config d)))) \<and>
         (n_zScore a \<noteq> NaN \<longrightarrow> ge64 (abs64 (n_zScore a)) (Fin 1.5))"
proof -
  have inv: "store_inv d" unfolding assms(1) by (rule reachable_store)
  from assms(2) obtain k points where
    "series_regression64 (config d) toFixed1 now k points = Some a"
    by (auto simp: detectRegressions64_results [OF inv] regressions_of64_member)
  then have "regressionAlert64 (config d) toFixed1 now k (sort_key timestamp points) = Some a"
    by (simp add: series_regression64_def split: if_splits)
  from regressionAlert64_fields [OF this]
  have t: "\<not> lt64 (n_percentageChange a) (round64 (regressionPercentThreshold (config d)))"
    "\<not> lt64 (abs64 (n_zScore a)) (Fin 1.5)"
    by blast+
  from t show ?thesis
    by (auto intro!: not_lt64_ge64 simp: abs64_NaN round64_not_NaN)
qed

text \<open>On the five points around 1000 followed by five at 1500, every operation is exact but
  the rounding of the two constants, and the alert on doubles is the alert on exact
  numbers.\<close>

lemma stepped_alert64:
  "fst (detectRegressions64 f now (stepped_detector 1500)) =
     [\<lparr>n_metric = ''LCP'', n_url = None, n_previousValue = Fin 1000,
       n_currentValue = Fin 1500, n_absoluteChange = Fin 500, n_percentageChange = Fin (1 / 2),
       n_zScore = Fin 250, n_severity = Warning, n_detectedAt = now, n_windowSize = 5,
       n_message = alertMessage64 f ''LCP'' None (Fin (1 / 2)) (Fin 1000) (Fin 1500)\<rparr>]"
  by (simp add: detectRegressions64_results [OF stepped_detector_inv])
     (simp add: stepped_detector_eval stored_def contents_def createPoints_def example_point_def
        regressions_of64_def List.map_filter_simps series_regression64_def regressionAlert64_def
        effectiveWindow_def currentWindow_def previousWindow_def array_slice_from_def
        array_slice_def mean64_def stdDev64_def variance64_def zScore64_def index_opt_def Let_def
        sub64_def eq64_def gt64_def round64_numeral round64_half round64_fifth
        round64_three_tenths round64_zero)

lemma overflow_detector_stored:
  "stored overflow_detector =
     [(''LCP'', createPoints ''LCP''
        [huge, huge, huge, huge, huge, huge, huge, huge, huge, huge] 0)]"
  by (simp add: overflow_detector_eval stored_def contents_def)

text \<open>
  C4. The claim is that every alert of \<open>detectRegressions\<close> passes both gates: its
  \<open>percentageChange\<close> is at least \<open>regressionPercentThreshold\<close> and the absolute value of its
  \<open>zScore\<close> is at least 1.5. The source returns early when \<open>percentageChange < threshold\<close> and
  when \<open>Math.abs(z) < 1.5\<close> ("Need both percentage threshold AND statistical
  significance"), and both tests are false of NaN. On ten points of value \<open>2 ^ 1023\<close>, a
  finite double, with the configuration of the detector tests, the sum of each window
  overflows: both means are Infinity, \<open>absoluteChange\<close> is Infinity - Infinity, and
  \<open>detectRegressions\<close> returns one alert, of severity critical, whose \<open>percentageChange\<close> and
  \<open>zScore\<close> are NaN: it passes neither gate.
\<close>

theorem regression_gates_overflow:
  "huge = 2 ^ 1023 \<and>
   stored overflow_detector =
     [(''LCP'', createPoints ''LCP''
        [huge, huge, huge, huge, huge, huge, huge, huge, huge, huge] 0)] \<and>
   fst (detectRegressions64 toFixed1 now overflow_detector) =
     [\<lparr>n_metric = ''LCP'', n_url = None, n_previousValue = PosInfinity,
       n_currentValue = PosInfinity, n_absoluteChange = NaN, n_percentageChange = NaN,
       n_zScore = NaN, n_severity = Critical, n_detectedAt = now, n_windowSize = 5,
       n_message = alertMessage64 toFixed1 ''LCP'' None NaN PosInfinity PosInfinity\<rparr>] \<and>
   \<not> ge64 NaN (round64 (regressionPercentThreshold (config overflow_detector))) \<and>
   \<not> ge64 (abs64 NaN) (Fin 1.5)"
proof -
  have "\<not> ge64 NaN (round64 (regressionPercentThreshold (config overflow_detector)))"
    and "\<not> ge64 (abs64 NaN) (Fin 1.5)"
    by (simp_all add: ge64_def gt64_def eq64_def lt64_NaN)
  with huge_def overflow_detector_stored overflow_alert [of toFixed1 now]
  show ?thesis by blast
qed

subsection \<open>The guards against division by zero\<close>

text \<open>What the two divisions would return for a divisor 0.\<close>

lemma division_by_zero64:
  "div64 (Fin 1) (Fin 0) = PosInfinity" "div64 (Fin (- 1)) (Fin 0) = NegInfinity"
  "div64 (Fin 0) (Fin 0) = NaN"
  by (simp_all add: inf_of_sign_def)

text \<open>
  C8. The guards of the source are against division by zero. \<open>zScore(value, mean, stdDev)\<close>
  returns 0 whenever \<open>stdDev\<close> is 0 (so \<open>zScore(5, 5, 0) = 0\<close>), and the rounded quotient
  \<open>(value - mean) / stdDev\<close> otherwise. In every state of the detector, every alert of
  \<open>detectRegressions\<close> has a \<open>previousValue\<close> other than 0, by which its \<open>percentageChange\<close> is
  the quotient of its \<open>absoluteChange\<close>; and a series whose previous window has mean exactly
  0 is skipped: the callback of \<open>forEach\<close> leaves the alerts as they are.
\<close>

theorem division_guards64:
  assumes "d = calls g cs (newDetector c)"
  shows "zScore64 v m (Fin 0) = Fin 0 \<and> zScore64 (Fin 5) (Fin 5) (Fin 0) = Fin 0 \<and>
         (\<not> eq64 sd (Fin 0) \<longrightarrow> zScore64 v m sd = div64 (sub64 v m) sd) \<and>
         (\<forall>a \<in> set (fst (detectRegressions64 toFixed now d)).
            \<not> eq64 (n_previousValue a) (Fin 0) \<and>
            n_percentageChange a = div64 (n_absoluteChange a) (n_previousValue a)) \<and>
         (\<forall>(k, pa) \<in> set (series d).
            mean64 (previousWindow (config d)
              (map (\<lambda>p. round64 (val p)) (sort_key timestamp (arrays d ! pa)))) = Fin 0
            \<longrightarrow> (\<forall>alerts ext.
                   fst (regressionCallback64 (config d) toFixed now k pa alerts (arrays d @ ext))
                     = alerts))"
proof (intro conjI ballI)
  show "zScore64 v m (Fin 0) = Fin 0" "zScore64 (Fin 5) (Fin 5) (Fin 0) = Fin 0"
    by (simp_all add: zScore64_def eq64_def)
  show "\<not> eq64 sd (Fin 0) \<longrightarrow> zScore64 v m sd = div64 (sub64 v m) sd"
    by (simp add: zScore64_def)
  have inv: "store_inv d" unfolding assms by (rule reachable_store)
  {
    fix a
    assume "a \<in> set (fst (detectRegressions64 toFixed now d))"
    then obtain k points where
      "series_regression64 (config d) toFixed now k points = Some a"
      by (auto simp: detectRegressions64_results [OF inv] regressions_of64_member)
    then have "regressionAlert64 (config d) toFixed now k (sort_key timestamp points) = Some a"
      by (simp add: series_regression64_def split: if_splits)
    from regressionAlert64_fields [OF this]
    show "\<not> eq64 (n_previousValue a) (Fin 0)"
      and "n_percentageChange a = div64 (n_absoluteChange a) (n_previousValue a)"
      by blast+
  }
  {
    fix e
    assume e: "e \<in> set (series d)"
    obtain k pa where kpa: "e = (k, pa)" by (cases e)
    from inv e kpa have pa: "pa < length (arrays d)"
      by (auto simp: store_inv_def addrs_valid_def list_all_iff)
    show "case e of (k, pa) \<Rightarrow>
            mean64 (previousWindow (config d)
              (map (\<lambda>p. round64 (val p)) (sort_key timestamp (arrays d ! pa)))) = Fin 0
            \<longrightarrow> (\<forall>alerts ext.
                   fst (regressionCallback64 (config d) toFixed now k pa alerts (arrays d @ ext))
                     = alerts)"
      unfolding kpa prod.case
      by (intro impI allI regressionCallback64_none [OF pa] regressionAlert64_zero_mean)
  }
qed

text \<open>Five points of value 0 and then five of value 10 give no alert; the alert of the ten
  points of \<open>2 ^ 1023\<close> has the previous value Infinity, which is not 0, and the alert of five
  points around 1000 followed by five at 1500 has the previous value 1000.\<close>

lemma example_detector_calls:
  "example_detector c vs = calls f [AddDataPoints (createPoints ''LCP'' vs 0)] (newDetector c)"
  by (simp add: calls_def example_detector_def)

lemma zero_baseline_eval64:
  "series (example_detector test_config [0, 0, 0, 0, 0, 10, 10, 10, 10, 10]) = [(''LCP'', 0)]"
  "mean64 (previousWindow (config (example_detector test_config [0, 0, 0, 0, 0, 10, 10, 10, 10, 10]))
     (map (\<lambda>p. round64 (val p)) (sort_key timestamp
        (arrays (example_detector test_config [0, 0, 0, 0, 0, 10, 10, 10, 10, 10]) ! 0)))) = Fin 0"
  by (simp_all add: example_detector_def createPoints_def example_point_def test_config_def
        newDetector_def DEFAULT_CONFIG_def addDataPoint_def key_def map_has_def new_array_def
        array_slice_from_def array_slice_def Let_def previousWindow_def effectiveWindow_def
        mean64_def round64_zero)

theorem division_guards64_witness:
  "(''LCP'', 0) \<in> set (series (example_detector test_config [0, 0, 0, 0, 0, 10, 10, 10, 10, 10])) \<and>
   mean64 (previousWindow (config (example_detector test_config [0, 0, 0, 0, 0, 10, 10, 10, 10, 10]))
     (map (\<lambda>p. round64 (val p)) (sort_key timestamp
        (arrays (example_detector test_config [0, 0, 0, 0, 0, 10, 10, 10, 10, 10]) ! 0)))) = Fin 0 \<and>
   fst (regressionCallback64
         (config (example_detector test_config [0, 0, 0, 0, 0, 10, 10, 10, 10, 10]))
         (\<lambda>x. []) 7 ''LCP'' 0 []
         (arrays (example_detector test_config [0, 0, 0, 0, 0, 10, 10, 10, 10, 10]) @ [])) = [] \<and>
   \<not> eq64 (Fin 1) (Fin 0) \<and> zScore64 (Fin 1) (Fin 0) (Fin 1) = div64 (sub64 (Fin 1) (Fin 0)) (Fin 1) \<and>
   \<not> eq64 (n_previousValue (hd (fst (detectRegressions64 (\<lambda>x. []) 7 overflow_detector)))) (Fin 0) \<and>
   \<not> eq64 (n_previousValue (hd (fst (detectRegressions64 (\<lambda>x. []) 7 (stepped_detector 1500)))))
      (Fin 0) \<and>
   n_percentageChange (hd (fst (detectRegressions64 (\<lambda>x. []) 7 (stepped_detector 1500)))) =
     div64 (n_absoluteChange (hd (fst (detectRegressions64 (\<lambda>x. []) 7 (stepped_detector 1500)))))
       (n_previousValue (hd (fst (detectRegressions64 (\<lambda>x. []) 7 (stepped_detector 1500)))))"
proof -
  let ?d = "example_detector test_config [0, 0, 0, 0, 0, 10, 10, 10, 10, 10]"
  have m: "(''LCP'', 0) \<in> set (series ?d)"
    by (simp add: zero_baseline_eval64)
  have ne: "\<not> eq64 (Fin 1) (Fin 0)" by (simp add: eq64_def)
  from division_guards64 [OF example_detector_calls [of test_config _ "\<lambda>x. []"],
      where now = 7 and toFixed = "\<lambda>x. []" and sd = "Fin 1" and v = "Fin 1" and m = "Fin 0"]
    m zero_baseline_eval64(2) ne
  have 1: "fst (regressionCallback64 (config ?d) (\<lambda>x. []) 7 ''LCP'' 0 [] (arrays ?d @ [])) = []"
    and 3: "zScore64 (Fin 1) (Fin 0) (Fin 1) = div64 (sub64 (Fin 1) (Fin 0)) (Fin 1)"
    by blast+
  have oc: "overflow_detector =
     calls (\<lambda>x. []) [AddDataPoints (createPoints ''LCP''
        [huge, huge, huge, huge, huge, huge, huge, huge, huge, huge] 0)] (newDetector test_config)"
    unfolding overflow_detector_def by (rule example_detector_calls)
  from division_guards64 [OF oc, where now = 7 and toFixed = "\<lambda>x. []"]
  have 2: "\<not> eq64 (n_previousValue (hd (fst (detectRegressions64 (\<lambda>x. []) 7 overflow_detector))))
      (Fin 0)"
    unfolding overflow_alert by (simp only: list.set list.sel) blast
  let ?a = "hd (fst (detectRegressions64 (\<lambda>x. []) 7 (stepped_detector 1500)))"
  have "?a \<in> set (fst (detectRegressions64 (\<lambda>x. []) 7 (stepped_detector 1500)))"
    unfolding stepped_alert64 by simp
  with division_guards64 [OF stepped_detector_calls [of 1500 "\<lambda>x. []"],
      where now = 7 and toFixed = "\<lambda>x. []"]
  have 4: "\<not> eq64 (n_previousValue ?a) (Fin 0)"
    and 5: "n_percentageChange ?a = div64 (n_absoluteChange ?a) (n_previousValue ?a)"
    by blast+
  from m zero_baseline_eval64(2) 1 ne 3 2 4 5 show ?thesis by blast
qed

text \<open>
  Finite inputs do give Infinity and NaN: the sum of two values of \<open>2 ^ 1023\<close> overflows, so
  their mean and their standard deviation are Infinity and the z-score of one of them is
  NaN; and the alert \<open>detectRegressions\<close> returns for ten such points has the previous value
  Infinity and the \<open>percentageChange\<close> and \<open>zScore\<close> NaN.
\<close>

theorem overflow_statistics_counterexample:
  "huge = 2 ^ 1023 \<and>
   mean64 [Fin huge, Fin huge] = PosInfinity \<and>
   stdDev64 [Fin huge, Fin huge] = PosInfinity \<and>
   zScore64 (Fin huge) (mean64 [Fin huge, Fin huge]) (stdDev64 [Fin huge, Fin huge]) = NaN \<and>
   map n_previousValue (fst (detectRegressions64 (\<lambda>x. []) 0 overflow_detector)) = [PosInfinity] \<and>
   map n_percentageChange (fst (detectRegressions64 (\<lambda>x. []) 0 overflow_detector)) = [NaN] \<and>
   map n_zScore (fst (detectRegressions64 (\<lambda>x. []) 0 overflow_detector)) = [NaN]"
proof -
  have m: "mean64 [Fin huge, Fin huge] = PosInfinity"
    by (simp add: mean64_def round64_huge round64_double_huge inf_of_sign_def)
  have s: "stdDev64 [Fin huge, Fin huge] = PosInfinity"
    by (simp add: stdDev64_def variance64_def m sub64_def inf_of_sign_def)
  have z: "zScore64 (Fin huge) (mean64 [Fin huge, Fin huge]) (stdDev64 [Fin huge, Fin huge]) = NaN"
    by (simp add: m s zScore64_def eq64_def sub64_def)
  have a: "map n_previousValue (fst (detectRegressions64 (\<lambda>x. []) 0 overflow_detector))
             = [PosInfinity]"
    "map n_percentageChange (fst (detectRegressions64 (\<lambda>x. []) 0 overflow_detector)) = [NaN]"
    "map n_zScore (fst (detectRegressions64 (\<lambda>x. []) 0 overflow_detector)) = [NaN]"
    by (simp_all add: overflow_alert)
  from huge_def m s z a show ?thesis by blast
qed

subsection \<open>The custom thresholds of the configuration\<close>

text \<open>Every method commutes with a change of the custom thresholds of the configuration.\<close>

lemma addDataPoint_custom:
  "addDataPoint p (d\<lparr>config := (config d)\<lparr>customThresholds := ct\<rparr>\<rparr>) =
     (addDataPoint p d)\<lparr>config := (config d)\<lparr>customThresholds := ct\<rparr>\<rparr>"
  by (simp add: addDataPoint_def Let_def new_array_def split: prod.splits)

lemma addDataPoint_config: "config (addDataPoint p d) = config d"
  by (simp add: addDataPoint_def Let_def new_array_def split: prod.splits)

lemma addDataPoints_custom:
  "addDataPoints ps (d\<lparr>config := (config d)\<lparr>customThresholds := ct\<rparr>\<rparr>) =
     (addDataPoints ps d)\<lparr>config := (config d)\<lparr>customThresholds := ct\<rparr>\<rparr>"
proof (induction ps arbitrary: d)
  case Nil
  show ?case by simp
next
  case (Cons p ps)
  from Cons [of "addDataPoint p d"] show ?case
    by (simp add: addDataPoint_custom addDataPoint_config)
qed


lemma custom_fields:
  "windowSize (cfg\<lparr>customThresholds := ct\<rparr>) = windowSize cfg"
  "minSamples (cfg\<lparr>customThresholds := ct\<rparr>) = minSamples cfg"
  "zScoreThreshold (cfg\<lparr>customThresholds := ct\<rparr>) = zScoreThreshold cfg"
  "regressionPercentThreshold (cfg\<lparr>customThresholds := ct\<rparr>) = regressionPercentThreshold cfg"
  by simp_all

lemma anomalies_forEach_custom:
  "anomalies_forEach (cfg\<lparr>customThresholds := ct\<rparr>) m results h =
     anomalies_forEach cfg m results h"
proof -
  have r: "anomalyResult (cfg\<lparr>customThresholds := ct\<rparr>) = anomalyResult cfg"
    unfolding fun_eq_iff anomalyResult_def custom_fields by (intro allI refl)
  have c: "anomalyCallback (cfg\<lparr>customThresholds := ct\<rparr>) = anomalyCallback cfg"
    unfolding fun_eq_iff anomalyCallback_def custom_fields r by (intro allI refl)
  show ?thesis
    by (induction m arbitrary: results h) (auto simp: c split: prod.splits sum.splits)
qed

lemma regressions_forEach_custom:
  "regressions_forEach (cfg\<lparr>customThresholds := ct\<rparr>) f now m alerts h =
     regressions_forEach cfg f now m alerts h"
proof -
  have r: "regressionAlert (cfg\<lparr>customThresholds := ct\<rparr>) = regressionAlert cfg"
    unfolding fun_eq_iff by (intro allI regressionAlert_config) simp_all
  have c: "regressionCallback (cfg\<lparr>customThresholds := ct\<rparr>) = regressionCallback cfg"
    unfolding fun_eq_iff regressionCallback_def custom_fields r by (intro allI refl)
  show ?thesis
    by (induction m arbitrary: alerts h) (auto simp: c split: prod.splits)
qed

lemma trendSummary_custom:
  "trendSummary (cfg\<lparr>customThresholds := ct\<rparr>) = trendSummary cfg"
proof -
  have w: "effectiveWindow (cfg\<lparr>customThresholds := ct\<rparr>) = effectiveWindow cfg"
    by (simp add: fun_eq_iff effectiveWindow_def)
  show ?thesis
    unfolding fun_eq_iff trendSummary_def w by (intro allI refl)
qed


lemma call_custom:
  "call f q (d\<lparr>config := (config d)\<lparr>customThresholds := ct\<rparr>\<rparr>) =
     (call f q d)\<lparr>config := (config d)\<lparr>customThresholds := ct\<rparr>\<rparr> \<and>
   config (call f q d) = config d"
proof (cases q)
  case (AddDataPoint p)
  then show ?thesis by (simp add: addDataPoint_custom addDataPoint_config)
next
  case (AddDataPoints ps)
  have "config (addDataPoints ps d) = config d"
    by (induction ps arbitrary: d) (simp_all add: addDataPoint_config)
  with AddDataPoints show ?thesis by (simp add: addDataPoints_custom)
next
  case (Clear nm u)
  then show ?thesis by (simp add: clear_def split: option.splits)
next
  case DetectAnomalies
  then show ?thesis
    by (simp add: detectAnomalies_def anomalies_forEach_custom split: prod.splits)
next
  case (DetectRegressions now)
  then show ?thesis
    by (simp add: detectRegressions_def regressions_forEach_custom split: prod.splits)
next
  case (AnalyzeTrend nm u)
  then show ?thesis
    by (simp add: analyzeTrend_def trendSummary_custom Let_def split: option.splits prod.splits)
qed

lemma calls_custom:
  "calls f qs (d\<lparr>config := (config d)\<lparr>customThresholds := ct\<rparr>\<rparr>) =
     (calls f qs d)\<lparr>config := (config d)\<lparr>customThresholds := ct\<rparr>\<rparr> \<and>
   config (calls f qs d) = config d"
proof (induction qs arbitrary: d)
  case Nil
  show ?case by (simp add: calls_def)
next
  case (Cons q qs)
  from call_custom [of f q ct d] Cons [of "call f q d"] show ?case
    by (simp add: calls_def)
qed

lemma newDetector_custom:
  "newDetector (c\<lparr>o_customThresholds := ct\<rparr>) =
     (newDetector c)\<lparr>config := (config (newDetector c))\<lparr>customThresholds := ct\<rparr>\<rparr>"
  by (cases ct) (simp_all add: newDetector_def DEFAULT_CONFIG_def)


text \<open>
  C10. \<open>detectRegressions\<close> never passes the configured \<open>customThresholds\<close> on: when the
  severity falls back to the threshold classifier (\<open>percentageChange \<le> 0.3\<close>) it is
  \<open>getSeverity(metricName, currMean)\<close>, with no third argument. Two detectors constructed
  with configurations that differ only in \<open>customThresholds\<close> and given the same calls
  return the same alerts, severities included.
\<close>

theorem custom_thresholds_unused:
  "fst (detectRegressions toFixed1 now
         (calls toFixed1 cs (newDetector (c\<lparr>o_customThresholds := ct\<rparr>)))) =
   fst (detectRegressions toFixed1 now (calls toFixed1 cs (newDetector c))) \<and>
   (\<forall>a \<in> set (fst (detectRegressions toFixed1 now (calls toFixed1 cs (newDetector c)))).
      percentageChange a \<le> 0.3 \<longrightarrow>
      severity a = getSeverity (r_metric a) (currentValue a) None)"
proof (intro conjI ballI impI)
  let ?d = "calls toFixed1 cs (newDetector c)"
  have "calls toFixed1 cs (newDetector (c\<lparr>o_customThresholds := ct\<rparr>)) =
      ?d\<lparr>config := (config ?d)\<lparr>customThresholds := ct\<rparr>\<rparr>"
    using calls_custom [of toFixed1 cs ct "newDetector c"] by (simp add: newDetector_custom)
  then show "fst (detectRegressions toFixed1 now
         (calls toFixed1 cs (newDetector (c\<lparr>o_customThresholds := ct\<rparr>)))) =
      fst (detectRegressions toFixed1 now ?d)"
    by (simp add: detectRegressions_def regressions_forEach_custom split: prod.splits)
next
  fix a
  let ?d = "calls toFixed1 cs (newDetector c)"
  assume a: "a \<in> set (fst (detectRegressions toFixed1 now ?d))"
    and low: "percentageChange a \<le> 0.3"
  have inv: "store_inv ?d" by (rule reachable_store)
  from a have "a \<in> set (regressions_of (config ?d) toFixed1 now (stored ?d))"
    by (simp add: analysis_results [OF inv])
  then obtain k points where
    sr: "series_regression (config ?d) toFixed1 now k points = Some a"
    by (auto simp: regressions_of_member)
  from sr have "regressionAlert (config ?d) toFixed1 now k (sort_key timestamp points) = Some a"
    by (simp add: series_regression_def split: if_splits)
  from regressionAlert_fields [OF this]
  have "severity a =
           (if percentageChange a > 0.5 then Critical
            else if percentageChange a > 0.3 then Warning
            else getSeverity (r_metric a) (currentValue a) None)"
    by blast
  with low show "severity a = getSeverity (r_metric a) (currentValue a) None"
    by simp
qed

lemma stepped_detector_mild_regression:
  "fst (detectRegressions (\<lambda>x. []) now (stepped_detector 1250)) =
     [\<lparr>r_metric = ''LCP'', r_url = None, previousValue = 1000, currentValue = 1250,
       absoluteChange = 250, percentageChange = 1 / 4, r_zScore = 125, severity = Info,
       detectedAt = now, r_windowSize = 5,
       message = alertMessage (\<lambda>x. []) ''LCP'' None (1 / 4) 1000 1250\<rparr>]"
  by (simp add: analysis_results [OF stepped_detector_inv])
     (simp add: stepped_detector_eval stored_def contents_def createPoints_def example_point_def
        regressions_of_def List.map_filter_simps series_regression_def regressionAlert_def
        effectiveWindow_def currentWindow_def previousWindow_def array_slice_from_def
        array_slice_def mean_def stdDev_def variance_def zScore_def index_opt_def Let_def
        getSeverity_def lookupThresholds_def WEB_VITALS_THRESHOLDS_def js_div_def)

theorem custom_thresholds_unused_witness:
  "map severity (fst (detectRegressions (\<lambda>x. []) 7
     (calls (\<lambda>x. [])
        [AddDataPoints (createPoints ''LCP'' [998, 998, 1000, 1002, 1002, 1250, 1250, 1250, 1250, 1250] 0)]
        (newDetector (test_config\<lparr>o_customThresholds :=
           Some [''LCP'' \<mapsto> \<lparr>good = 500, needsImprovement = 1000\<rparr>]\<rparr>))))) = [Info] \<and>
   getSeverity ''LCP'' 1250 (Some [''LCP'' \<mapsto> \<lparr>good = 500, needsImprovement = 1000\<rparr>]) = Warning \<and>
   getSeverity ''LCP'' 1250 None = Info"
proof -
  from custom_thresholds_unused [of "\<lambda>x. []" 7
      "[AddDataPoints (createPoints ''LCP'' [998, 998, 1000, 1002, 1002, 1250, 1250, 1250, 1250, 1250] 0)]"
      "Some [''LCP'' \<mapsto> \<lparr>good = 500, needsImprovement = 1000\<rparr>]" test_config]
  have "map severity (fst (detectRegressions (\<lambda>x. []) 7
     (calls (\<lambda>x. [])
        [AddDataPoints (createPoints ''LCP'' [998, 998, 1000, 1002, 1002, 1250, 1250, 1250, 1250, 1250] 0)]
        (newDetector (test_config\<lparr>o_customThresholds :=
           Some [''LCP'' \<mapsto> \<lparr>good = 500, needsImprovement = 1000\<rparr>]\<rparr>))))) = [Info]"
    by (simp add: stepped_detector_calls [symmetric] stepped_detector_mild_regression)
  moreover have
    "getSeverity ''LCP'' 1250 (Some [''LCP'' \<mapsto> \<lparr>good = 500, needsImprovement = 1000\<rparr>]) = Warning"
    "getSeverity ''LCP'' 1250 None = Info"
    by (simp_all add: getSeverity_def lookupThresholds_def WEB_VITALS_THRESHOLDS_def js_div_def)
  ultimately show ?thesis by blast
qed

section \<open>Trend\<close>

lemma array_slice_last:
  "1 \<le> w \<Longrightarrow> w \<le> int (length xs) \<Longrightarrow>
   array_slice_from xs (- w) = drop (length xs - nat w) xs"
  by (auto simp: array_slice_from_def array_slice_def Let_def nat_diff_distrib)

lemma array_slice_first:
  "0 \<le> w \<Longrightarrow> array_slice xs 0 w = take (nat w) xs"
  by (auto simp: array_slice_def Let_def min_def)

text \<open>
  C1, as amended. For every series with at least \<open>minSamples\<close> points, \<open>analyzeTrend\<close>
  returns a non-null summary with the direction and slope of \<open>linearTrend\<close> and the \<open>ewma\<close>
  series (alpha 0.3) of the timestamp-sorted values; and when
  \<open>w = min(configured windowSize, floor(n/2))\<close> is at least 1, \<open>recentMean\<close> is the mean of the
  last \<open>w\<close> sorted values and \<open>baselineMean\<close> is the mean of the first \<open>w\<close> sorted values.
\<close>

theorem analyzeTrend_means:
  assumes "d = calls toFixed1 cs (newDetector c)"
    and "map_of (stored d) (key nm u) = Some points"
    and "minSamples (config d) \<le> int (length points)"
    and "values = map val (sort_key timestamp points)"
    and "w = min (windowSize (config d)) (int (length values) div 2)"
  shows "\<exists>s. fst (analyzeTrend nm u d) = Some s \<and>
           t_direction s = direction (linearTrend values) \<and>
           t_slope s = slope (linearTrend values) \<and>
           ewmaValues s = ewma values 0.3 \<and>
           (1 \<le> w \<longrightarrow>
              recentMean s = mean (drop (length values - nat w) values) \<and>
              baselineMean s = mean (take (nat w) values))"
proof -
  have inv: "store_inv d" unfolding assms(1) by (rule reachable_store)
  have w: "w = effectiveWindow (config d) values"
    by (simp add: assms(5) effectiveWindow_def)
  have "w \<le> int (length values)"
    unfolding assms(5) by simp
  then have means: "1 \<le> w \<longrightarrow>
      array_slice_from values (- w) = drop (length values - nat w) values \<and>
      array_slice values 0 w = take (nat w) values"
    by (simp add: array_slice_last array_slice_first)
  have "fst (analyzeTrend nm u d) = Some (trendSummary (config d) (sort_key timestamp points))"
    using assms(2,3) by (simp add: analysis_results [OF inv] trend_of_def)
  with means show ?thesis
    by (simp add: trendSummary_def Let_def assms(4) [symmetric] w [symmetric])
qed

lemma stepped_detector_stored:
  "map_of (stored (stepped_detector v)) (key ''LCP'' None) =
     Some (createPoints ''LCP'' [998, 998, 1000, 1002, 1002, v, v, v, v, v] 0)"
  by (simp add: stepped_detector_eval stored_def contents_def key_def)

lemma stepped_points_values:
  "map val (sort_key timestamp (createPoints ''LCP'' [998, 998, 1000, 1002, 1002, v, v, v, v, v] 0))
     = [998, 998, 1000, 1002, 1002, v, v, v, v, v]"
  by (simp add: createPoints_def example_point_def)

theorem analyzeTrend_means_witness:
  "minSamples (config (stepped_detector 1500)) \<le> 10 \<and>
   min (windowSize (config (stepped_detector 1500))) (10 div 2) = 5 \<and>
   map_option recentMean (fst (analyzeTrend ''LCP'' None (stepped_detector 1500))) = Some 1500 \<and>
   map_option baselineMean (fst (analyzeTrend ''LCP'' None (stepped_detector 1500))) = Some 1000"
proof -
  have c: "minSamples (config (stepped_detector 1500)) \<le> 10"
    "min (windowSize (config (stepped_detector 1500))) (10 div 2) = 5"
    by (simp_all add: stepped_detector_eval)
  have ws: "windowSize (config (stepped_detector 1500)) = 10"
    by (simp add: stepped_detector_eval)
  have l: "minSamples (config (stepped_detector 1500))
      \<le> int (length (createPoints ''LCP'' [998, 998, 1000, 1002, 1002, 1500, 1500, 1500, 1500, 1500] 0))"
    by (simp add: stepped_detector_eval createPoints_def)
  from analyzeTrend_means [OF stepped_detector_calls [of 1500 "\<lambda>x. []"]
      stepped_detector_stored [of 1500] l stepped_points_values [of 1500, symmetric] refl]
  obtain s where "fst (analyzeTrend ''LCP'' None (stepped_detector 1500)) = Some s"
    and "recentMean s = mean (drop 5 [998, 998, 1000, 1002, 1002, 1500, 1500, 1500, 1500, 1500])"
    and "baselineMean s = mean (take 5 [998, 998, 1000, 1002, 1002, 1500, 1500, 1500, 1500, 1500])"
    by (auto simp: ws)
  with c show ?thesis
    by (simp add: mean_def)
qed

text \<open>
  C1 as stated pairs \<open>recentMean\<close> with the first values and \<open>baselineMean\<close> with the last.
  On ten points, five around 1000 followed by five at 1500, with \<open>windowSize = 10\<close> and
  \<open>minSamples = 5\<close> (so \<open>w = 5\<close>), \<open>recentMean\<close> is 1500 while the mean of the first five
  sorted values is 1000, and \<open>baselineMean\<close> is 1000 while the mean of the last five is 1500.
\<close>

theorem analyzeTrend_means_counterexample:
  "minSamples (config (stepped_detector 1500)) \<le> 10 \<and>
   min (windowSize (config (stepped_detector 1500))) (10 div 2) = 5 \<and>
   map val (sort_key timestamp (createPoints ''LCP''
       [998, 998, 1000, 1002, 1002, 1500, 1500, 1500, 1500, 1500] 0)) =
     [998, 998, 1000, 1002, 1002, 1500, 1500, 1500, 1500, 1500] \<and>
   map_option recentMean (fst (analyzeTrend ''LCP'' None (stepped_detector 1500))) = Some 1500 \<and>
   mean (take 5 [998, 998, 1000, 1002, 1002, 1500, 1500, 1500, 1500, 1500]) = 1000 \<and>
   map_option baselineMean (fst (analyzeTrend ''LCP'' None (stepped_detector 1500))) = Some 1000 \<and>
   mean (drop 5 [998, 998, 1000, 1002, 1002, 1500, 1500, 1500, 1500, 1500]) = 1500"
  by (simp add: analysis_results [OF stepped_detector_inv] trend_of_def stepped_detector_stored
        stepped_points_values)
     (simp add: stepped_detector_eval createPoints_def example_point_def trendSummary_def
        effectiveWindow_def array_slice_from_def array_slice_def mean_def Let_def)

end
